theory Spec2Isabelle
  imports
    Complex_Main
    "HOL-Library.Word"
    "HOL-Library.Char_ord"
    "HOL-Library.List_Lexorder"
    "HOL-Library.AList"
    "HOL-Library.Log_Nat"
begin

unbundle bit_operations_syntax

section \<open>Strings, paths and directory listings\<close>

text \<open>
  File names are byte strings. Python compares \<open>str\<close> values by code point, which is the
  lexicographic order of their UTF-8 bytes, so the order of \<^typ>\<open>string\<close> from
  \<^theory_text>\<open>List_Lexorder\<close> over \<^theory_text>\<open>Char_ord\<close> is the order \<open>sorted\<close> uses.
\<close>

definition endswith :: "string \<Rightarrow> string \<Rightarrow> bool" where
  \<comment> \<open>\<open>s.endswith(suf)\<close>\<close>
  "endswith s suf = (length suf \<le> length s \<and> drop (length s - length suf) s = suf)"

definition path_join :: "string \<Rightarrow> string \<Rightarrow> string" where
  \<comment> \<open>\<open>os.path.join(a, b)\<close> on POSIX, two components\<close>
  "path_join a b =
     (if b \<noteq> [] \<and> hd b = CHR ''/'' then b
      else if a = [] \<or> last a = CHR ''/'' then a @ b
      else a @ ''/'' @ b)"

datatype fs_node = Absent | File | Dir "string list"
  \<comment> \<open>what a path names: nothing, a regular file, or a directory with its entries
     (in the order \<open>os.listdir\<close> returns them)\<close>

definition digit_char :: "nat \<Rightarrow> char" where
  "digit_char d = ''0123456789'' ! d"

fun string_of_nat :: "nat \<Rightarrow> string" where
  \<comment> \<open>\<open>str(n)\<close>, as an f-string interpolates a non-negative integer\<close>
  "string_of_nat n =
     (if n < 10 then [digit_char n] else string_of_nat (n div 10) @ [digit_char (n mod 10)])"

declare string_of_nat.simps [simp del]

definition digit_val :: "char \<Rightarrow> nat" where
  "digit_val c = of_char c - 48"

definition nat_of_digits :: "string \<Rightarrow> nat" where
  \<comment> \<open>\<open>int(s)\<close> for a string of decimal digits\<close>
  "nat_of_digits s = foldl (\<lambda>acc c. 10 * acc + digit_val c) 0 s"

fun rfind :: "char \<Rightarrow> string \<Rightarrow> nat option" where
  \<comment> \<open>\<open>s.rfind(c)\<close>, with \<open>None\<close> for \<open>-1\<close>\<close>
  "rfind c [] = None"
| "rfind c (x # xs) =
     (case rfind c xs of Some i \<Rightarrow> Some (Suc i) | None \<Rightarrow> if x = c then Some 0 else None)"

definition path_stem :: "string \<Rightarrow> string" where
  \<comment> \<open>\<open>Path(name).stem\<close>: the name without its last suffix; a dot that starts or ends the
     name does not begin a suffix\<close>
  "path_stem name =
     (case rfind CHR ''.'' name of
        None \<Rightarrow> name
      | Some i \<Rightarrow> if 0 < i \<and> i < length name - 1 then take i name else name)"

definition splitext_root :: "string \<Rightarrow> string" where
  \<comment> \<open>\<open>os.path.splitext(name)[0]\<close> for a name without separators: cut at the last dot,
     unless only dots come before it\<close>
  "splitext_root name =
     (case rfind CHR ''.'' name of
        None \<Rightarrow> name
      | Some i \<Rightarrow> if list_ex (\<lambda>c. c \<noteq> CHR ''.'') (take i name) then take i name else name)"

definition extensions :: "string list" where
  \<comment> \<open>the patterns \<open>['*.jpg', '*.JPG', '*.jpeg', '*.png']\<close> of both engines, each by the
     suffix it asks for; a name matches \<open>'*' + ext\<close> when it ends with \<open>ext\<close>, letter case
     included (POSIX)\<close>
  "extensions = [''.jpg'', ''.JPG'', ''.jpeg'', ''.png'']"

definition visible :: "string \<Rightarrow> bool" where
  \<comment> \<open>\<open>glob.glob\<close> leaves out names that start with a dot; \<open>Path.glob\<close> does not\<close>
  "visible name = (case name of [] \<Rightarrow> False | c # cs \<Rightarrow> c \<noteq> CHR ''.'')"

definition start_index :: nat where
  "start_index = 1000"

definition sequence_name :: "nat \<Rightarrow> string" where
  \<comment> \<open>\<open>f"{start_index + i}.jpg"\<close>\<close>
  "sequence_name i = string_of_nat (start_index + i) @ ''.jpg''"

section \<open>pipeline.py: the toolchain orchestrator\<close>

datatype proc_outcome = Completed | NonZeroExit | SpawnFailed
  \<comment> \<open>\<open>subprocess.run(cmd, check=True)\<close>: returns, raises \<open>CalledProcessError\<close>, or raises
     something else (a missing binary), which \<open>run_alicevision_node\<close> does not catch\<close>

datatype ending = Returned | SysExit nat | Traceback
  \<comment> \<open>how \<open>main\<close> ends: by returning, by \<open>sys.exit(n)\<close>, or by an uncaught exception\<close>

datatype msg =
    Banner
  | ErrEnvNotConfigured
  | ErrInputDirMissing string
  | ErrInsufficientImages string nat
  | InfoCleaning
  | NodeStart string
  | NodeDone string
  | NodeFatal string "string list"
  | Finished string
  \<comment> \<open>the lines \<open>print\<close> writes, by kind, with the values interpolated into them\<close>

record pipeline_env =
  PROJECT_DIR :: string
  ALICEVISION_BIN :: "string option"
  SENSOR_DB :: "string option"
  input_images :: fs_node
  subprocess_run :: "string list \<Rightarrow> proc_outcome"

record pstate =
  recon :: fs_node
  invoked :: "string list list"
  printed :: "msg list"

definition INPUT_IMAGES_DIR :: "pipeline_env \<Rightarrow> string" where
  "INPUT_IMAGES_DIR env = path_join (PROJECT_DIR env) ''data/sanitized''"

definition OUTPUT_ROOT :: "pipeline_env \<Rightarrow> string" where
  "OUTPUT_ROOT env = path_join (PROJECT_DIR env) ''data/recon''"

definition falsy :: "string option \<Rightarrow> bool" where
  \<comment> \<open>\<open>not v\<close> for an environment variable: unset or empty\<close>
  "falsy v = (case v of None \<Rightarrow> True | Some s \<Rightarrow> s = [])"

definition num_files :: "string list \<Rightarrow> nat" where
  \<comment> \<open>\<open>len([f for f in os.listdir(INPUT_IMAGES_DIR) if f.endswith('.jpg')])\<close>\<close>
  "num_files entries = length (filter (\<lambda>f. endswith f ''.jpg'') entries)"

definition validate_environment :: "pipeline_env \<Rightarrow> msg list \<times> bool option" where
  \<comment> \<open>the lines printed, and the value returned (\<open>None\<close>: \<open>os.listdir\<close> raised)\<close>
  "validate_environment env =
     (if falsy (ALICEVISION_BIN env) \<or> falsy (SENSOR_DB env) then ([ErrEnvNotConfigured], Some False)
      else case input_images env of
        Absent \<Rightarrow> ([ErrInputDirMissing (INPUT_IMAGES_DIR env)], Some False)
      | File \<Rightarrow> ([], None)
      | Dir entries \<Rightarrow>
          if num_files entries < 3
          then ([ErrInsufficientImages (INPUT_IMAGES_DIR env) (num_files entries)], Some False)
          else ([], Some True))"

type_synonym step = "pstate \<Rightarrow> (ending \<times> pstate) + pstate"
  \<comment> \<open>a statement of \<open>main\<close>: it ends the run (\<open>Inl\<close>) or hands the state on (\<open>Inr\<close>)\<close>

definition run_alicevision_node :: "pipeline_env \<Rightarrow> string list \<Rightarrow> string \<Rightarrow> step" where
  "run_alicevision_node env cmd_list step_name s =
     (let s1 = s\<lparr>printed := printed s @ [NodeStart step_name]\<rparr>;
          cmd = (if ''--verboseLevel'' \<notin> set cmd_list
                 then cmd_list @ [''--verboseLevel'', ''error''] else cmd_list);
          s2 = s1\<lparr>invoked := invoked s1 @ [cmd]\<rparr>
      in case subprocess_run env cmd of
           Completed \<Rightarrow> Inr (s2\<lparr>printed := printed s2 @ [NodeDone step_name]\<rparr>)
         | NonZeroExit \<Rightarrow>
             Inl (SysExit 1, s2\<lparr>printed := printed s2 @ [NodeFatal step_name cmd]\<rparr>)
         | SpawnFailed \<Rightarrow> Inl (Traceback, s2))"

definition makedirs :: "string \<Rightarrow> step" where
  \<comment> \<open>\<open>os.makedirs(os.path.join(OUTPUT_ROOT, name), exist_ok=True)\<close>\<close>
  "makedirs name s =
     (case recon s of
        Dir entries \<Rightarrow> Inr (s\<lparr>recon := Dir (if name \<in> set entries then entries else entries @ [name])\<rparr>)
      | Absent \<Rightarrow> Inr (s\<lparr>recon := Dir [name]\<rparr>)
      | File \<Rightarrow> Inl (Traceback, s))"

fun run_steps :: "step list \<Rightarrow> step" where
  "run_steps [] s = Inr s"
| "run_steps (f # fs) s = (case f s of Inl e \<Rightarrow> Inl e | Inr s' \<Rightarrow> run_steps fs s')"

definition clean_output :: "step" where
  \<comment> \<open>\<open>if os.path.exists(OUTPUT_ROOT): print(...); shutil.rmtree(OUTPUT_ROOT)\<close> and then
     \<open>os.makedirs(OUTPUT_ROOT, exist_ok=True)\<close>\<close>
  "clean_output s =
     (case recon s of
        Absent \<Rightarrow> Inr (s\<lparr>recon := Dir []\<rparr>)
      | Dir entries \<Rightarrow> Inr (s\<lparr>recon := Dir [], printed := printed s @ [InfoCleaning]\<rparr>)
      | File \<Rightarrow> Inl (Traceback, s\<lparr>printed := printed s @ [InfoCleaning]\<rparr>))"

definition workflow :: "pipeline_env \<Rightarrow> string \<Rightarrow> string \<Rightarrow> step list" where
  \<comment> \<open>the ten nodes of \<open>main\<close>, with the values of the two environment variables\<close>
  "workflow env bin_dir sensor_db =
     (let bin = (\<lambda>name. path_join bin_dir name);
          out = (\<lambda>name. path_join (OUTPUT_ROOT env) name);
          images = INPUT_IMAGES_DIR env;
          sfm_file = out ''cameraInit.sfm'';
          features_dir = out ''features'';
          matches_file = out ''imageMatches.txt'';
          matches_dir = out ''matches'';
          sfm_output = out ''sfm.abc'';
          dense_sfm = out ''densePointCloud.sfm'';
          mesh_output = out ''mesh.obj''
      in
      [ run_alicevision_node env
          [bin ''aliceVision_cameraInit'', ''--imageFolder'', images,
           ''--sensorDatabase'', sensor_db, ''--output'', sfm_file,
           ''--allowSingleView'', ''1'', ''--viewIdMethod'', ''filename''] ''CameraInit'',
        makedirs ''features'',
        run_alicevision_node env
          [bin ''aliceVision_featureExtraction'', ''--input'', sfm_file, ''--output'', features_dir,
           ''--describerTypes'', ''sift'', ''--forceCpuExtraction'', ''1''] ''FeatureExtraction'',
        run_alicevision_node env
          [bin ''aliceVision_imageMatching'', ''--input'', sfm_file, ''--features'', features_dir,
           ''--output'', matches_file, ''--minNbImages'', ''2'', ''--method'', ''Sequential'',
           ''--nbNeighbors'', ''50''] ''ImageMatching'',
        makedirs ''matches'',
        run_alicevision_node env
          [bin ''aliceVision_featureMatching'', ''--input'', sfm_file, ''--features'', features_dir,
           ''--imagePairsList'', matches_file, ''--output'', matches_dir,
           ''--describerTypes'', ''sift'', ''--distanceRatio'', ''0.8''] ''FeatureMatching'',
        run_alicevision_node env
          [bin ''aliceVision_incrementalSfM'', ''--input'', sfm_file, ''--features'', features_dir,
           ''--matches'', matches_dir, ''--output'', sfm_output,
           ''--outputViewsAndPoses'', out ''cameras.sfm''] ''StructureFromMotion'',
        run_alicevision_node env
          [bin ''aliceVision_prepareDenseScene'', ''--input'', sfm_output,
           ''--output'', OUTPUT_ROOT env, ''--imagesFolders'', images] ''PrepareDenseScene'',
        run_alicevision_node env
          [bin ''aliceVision_depthMapEstimation'', ''--input'', sfm_output,
           ''--output'', OUTPUT_ROOT env, ''--imagesFolder'', images,
           ''--downscale'', ''2''] ''DepthMapEstimation'',
        run_alicevision_node env
          [bin ''aliceVision_depthMapFiltering'', ''--input'', sfm_output,
           ''--output'', OUTPUT_ROOT env, ''--depthMapsFolder'', OUTPUT_ROOT env] ''DepthMapFiltering'',
        run_alicevision_node env
          [bin ''aliceVision_meshing'', ''--input'', sfm_output, ''--output'', dense_sfm,
           ''--outputMesh'', mesh_output, ''--depthMapsFolder'', OUTPUT_ROOT env,
           ''--minVis'', ''2''] ''Meshing'',
        run_alicevision_node env
          [bin ''aliceVision_texturing'', ''--input'', dense_sfm, ''--inputMesh'', mesh_output,
           ''--output'', OUTPUT_ROOT env, ''--imagesFolder'', images,
           ''--textureSide'', ''4096'', ''--colorMappingFileType'', ''png''] ''Texturing'' ])"

definition pipeline_main :: "pipeline_env \<Rightarrow> pstate \<Rightarrow> ending \<times> pstate" where
  \<comment> \<open>\<open>main()\<close> of pipeline.py\<close>
  "pipeline_main env s0 =
     (let s = s0\<lparr>printed := printed s0 @ [Banner]\<rparr>;
          (out, ok) = validate_environment env;
          s1 = s\<lparr>printed := printed s @ out\<rparr>
      in case ok of
           None \<Rightarrow> (Traceback, s1)
         | Some False \<Rightarrow> (SysExit 1, s1)
         | Some True \<Rightarrow>
             (case (ALICEVISION_BIN env, SENSOR_DB env) of
                (Some bin_dir, Some sensor_db) \<Rightarrow>
                  (case run_steps (clean_output # workflow env bin_dir sensor_db) s1 of
                     Inl e \<Rightarrow> e
                   | Inr s2 \<Rightarrow>
                       (Returned,
                        s2\<lparr>printed := printed s2 @
                           [Finished (path_join (OUTPUT_ROOT env) ''texturedMesh.obj'')]\<rparr>))
              | _ \<Rightarrow> (Traceback, s1)))"

definition few_frames_env :: pipeline_env where
  \<comment> \<open>a configured environment whose sanitized directory holds two frames\<close>
  "few_frames_env =
     \<lparr>PROJECT_DIR = ''/proj'', ALICEVISION_BIN = Some ''/av/bin'', SENSOR_DB = Some ''/av/db'',
      input_images = Dir [''1000.jpg'', ''1001.jpg'', ''notes.txt''],
      subprocess_run = (\<lambda>cmd. Completed)\<rparr>"

definition earlier_recon :: pstate where
  \<comment> \<open>the state before a run, with the mesh of an earlier reconstruction on disk\<close>
  "earlier_recon = \<lparr>recon = Dir [''texturedMesh.obj''], invoked = [], printed = []\<rparr>"

section \<open>Floating-point arithmetic of the pixel operations\<close>

text \<open>
  NumPy computes the pixel operations in binary floating point: \<open>float32\<close> in
  \<open>green_spill_reduction\<close>, \<open>float64\<close> in the compositing of \<open>sanitize_images\<close>. A
  floating-point value is the rational number it denotes; an operation is the exact operation
  followed by rounding to \<open>p\<close> significant bits, to nearest, ties to even. The exponent range
  is not modelled: every value these programs compute is zero or lies between \<open>2\<^sup>-\<^sup>8\<close> and
  \<open>2\<^sup>8\<close>, where neither format overflows or is subnormal.
\<close>

definition binade :: "rat \<Rightarrow> int" where
  \<comment> \<open>the exponent \<open>e\<close> with \<open>2\<^sup>e \<le> x < 2\<^sup>e\<^sup>+\<^sup>1\<close>, for \<open>x > 0\<close>\<close>
  "binade x = (let (p, q) = quotient_of x; d = bitlen p - bitlen q
               in if 2 powi d \<le> x then d else d - 1)"

definition round_half_even :: "rat \<Rightarrow> int" where
  "round_half_even q =
     (let f = \<lfloor>q\<rfloor>; d = q - of_int f
      in if d < 1 / 2 then f else if 1 / 2 < d then f + 1 else if even f then f else f + 1)"

definition fl_round :: "nat \<Rightarrow> rat \<Rightarrow> rat" where
  \<comment> \<open>rounding to \<open>p\<close> significant bits\<close>
  "fl_round p x =
     (if x = 0 then 0
      else let u = 2 powi (binade \<bar>x\<bar> - int p + 1)
           in sgn x * of_int (round_half_even (\<bar>x\<bar> / u)) * u)"

definition f32 :: "rat \<Rightarrow> rat" where
  "f32 = fl_round 24"

definition f64 :: "rat \<Rightarrow> rat" where
  "f64 = fl_round 53"

section \<open>Pixels and images\<close>

text \<open>
  A channel value is a \<open>uint8\<close>. An image is the list of its pixels in row-major order, in
  OpenCV's channel order (blue, green, red, and alpha when there is one); two arrays of the
  same height and width are two lists of the same length.
\<close>

type_synonym u8 = "8 word"
type_synonym bgr = "u8 \<times> u8 \<times> u8"
type_synonym bgra = "u8 \<times> u8 \<times> u8 \<times> u8"

definition of_u8 :: "u8 \<Rightarrow> rat" where
  \<comment> \<open>the number a \<open>uint8\<close> denotes; its conversion to a float is exact\<close>
  "of_u8 w = of_nat (unat w)"

definition astype_uint8 :: "rat \<Rightarrow> u8" where
  \<comment> \<open>\<open>.astype(np.uint8)\<close> of a float: the fraction is dropped\<close>
  "astype_uint8 x = word_of_int (if 0 \<le> x then \<lfloor>x\<rfloor> else \<lceil>x\<rceil>)"

definition blue :: "bgr \<Rightarrow> u8" where
  "blue px = fst px"

definition green :: "bgr \<Rightarrow> u8" where
  "green px = fst (snd px)"

definition red :: "bgr \<Rightarrow> u8" where
  "red px = snd (snd px)"

definition rb_average :: "bgr \<Rightarrow> rat" where
  \<comment> \<open>the average of the red and the blue channel, as a number\<close>
  "rb_average px = (of_u8 (red px) + of_u8 (blue px)) / 2"

section \<open>preprocess\_ia.py: spill suppression and compositing\<close>

definition APPLY_DESPILL :: bool where
  "APPLY_DESPILL = True"

definition DESPILL_FACTOR :: rat where
  \<comment> \<open>the Python literal \<open>0.8\<close>, a \<open>float64\<close>\<close>
  "DESPILL_FACTOR = f64 (8 / 10)"

definition despill_pixel :: "bgr \<Rightarrow> u8 \<Rightarrow> bgr" where
  \<comment> \<open>what \<open>green_spill_reduction\<close> does to one pixel and its mask value: the three
     channels as \<open>float32\<close>, the red/blue average, the spill test, the blend written into the
     green channel, and the conversion of the three channels back to \<open>uint8\<close>. The two
     Python scalars \<open>1 - DESPILL_FACTOR\<close> and \<open>DESPILL_FACTOR\<close> multiply a \<open>float32\<close>
     array, so they are converted to \<open>float32\<close>.\<close>
  "despill_pixel px m =
     (case px of (b, g, r) \<Rightarrow>
        let bf = f32 (of_u8 b); gf = f32 (of_u8 g); rf = f32 (of_u8 r);
            rb_avg = f32 (f32 (rf + bf) / 2);
            g' = (if rb_avg < gf \<and> 0 < m
                  then f32 (f32 (gf * f32 (f64 (1 - DESPILL_FACTOR)))
                            + f32 (rb_avg * f32 DESPILL_FACTOR))
                  else gf)
        in (astype_uint8 bf, astype_uint8 g', astype_uint8 rf))"

definition green_spill_reduction :: "bgr list \<Rightarrow> u8 list \<Rightarrow> bgr list option" where
  \<comment> \<open>\<open>None\<close>: the mask does not have the image's shape, and NumPy raises\<close>
  "green_spill_reduction img_array mask_array =
     (if length img_array = length mask_array
      then Some (map2 despill_pixel img_array mask_array) else None)"

definition blend_channel :: "u8 \<Rightarrow> u8 \<Rightarrow> u8" where
  \<comment> \<open>one channel of one pixel of
     \<open>((img_rgb * alpha_f) + (bg_black * (1.0 - alpha_f))).astype(np.uint8)\<close>, with
     \<open>alpha_f = a / 255.0\<close> and \<open>bg_black\<close> zero, in \<open>float64\<close>\<close>
  "blend_channel c a =
     (let alpha_f = f64 (of_u8 a / 255)
      in astype_uint8 (f64 (f64 (of_u8 c * alpha_f) + f64 (0 * f64 (1 - alpha_f)))))"

definition composite_black :: "bgr list \<Rightarrow> u8 list \<Rightarrow> bgr list" where
  "composite_black img_rgb a =
     map2 (\<lambda>px al. case px of (b, g, r) \<Rightarrow>
             (blend_channel b al, blend_channel g al, blend_channel r al)) img_rgb a"

section \<open>preprocess.py: flattening the transparency\<close>

definition bitwise_and_mask :: "u8 \<Rightarrow> u8 \<Rightarrow> u8" where
  \<comment> \<open>one element of \<open>cv2.bitwise_and(c, c, mask=a)\<close>: the conjunction where the mask is
     not zero, zero elsewhere\<close>
  "bitwise_and_mask c a = (if a \<noteq> 0 then c AND c else 0)"

definition flatten_alpha :: "bgra list \<Rightarrow> bgr list" where
  \<comment> \<open>\<open>b, g, r, a = cv2.split(img)\<close>, the three masked conjunctions, \<open>cv2.merge\<close>\<close>
  "flatten_alpha img =
     map (\<lambda>px. case px of (b, g, r, a) \<Rightarrow>
            (bitwise_and_mask b a, bitwise_and_mask g a, bitwise_and_mask r a)) img"

section \<open>Files written and lines logged by the two engines\<close>

datatype image = Gray "u8 list" | Color "bgr list" | ColorAlpha "bgra list"
  \<comment> \<open>what \<open>cv2.imread(path, cv2.IMREAD_UNCHANGED)\<close> can return: one, three or four
     channels\<close>

type_synonym folder = "(string \<times> image) list option"
  \<comment> \<open>a directory of images: \<open>None\<close> when it does not exist, else its files by name, in
     the order they were first written\<close>

definition imwrite :: "string \<Rightarrow> image \<Rightarrow> folder \<Rightarrow> folder" where
  \<comment> \<open>\<open>cv2.imwrite\<close>: creates or overwrites the file; writes nothing where there is no
     directory\<close>
  "imwrite name img d = map_option (AList.update name img) d"

datatype level = INFO | WARNING | ERROR | CRITICAL

datatype event =
    EvStart
  | EvNoImages string
  | EvLoadingModel nat
  | EvEngineInitFailed string
  | EvDecodeFailed string
  | EvProcessingError string string
  | EvTransferStart
  | EvExiftoolMissing
  | EvTransferDone nat nat
  | EvFinished string
  \<comment> \<open>the records of \<open>logger\<close> in preprocess\_ia.py, by message, with the values
     interpolated into them; \<open>EvDecodeFailed\<close> and \<open>EvProcessingError\<close> carry the file name\<close>

datatype cl_msg =
    ClBanner
  | ClStage1
  | ClErrNoImages string
  | ClStage2
  | ClStage3
  | ClErrExiftoolMissing
  | ClRestored nat
  | ClReady
  \<comment> \<open>the lines \<open>print\<close> writes in preprocess.py. The progress bars of \<open>tqdm\<close>, which show
     counts only, are left out in both engines.\<close>

section \<open>preprocess\_ia.py: the learned-segmentation engine\<close>

datatype inference = Raised string | Undecodable | Decoded "bgra list"
  \<comment> \<open>reading a file, \<open>rembg.remove\<close> and \<open>cv2.imdecode\<close>: an exception (caught and
     logged), \<open>None\<close> from the decoder, or the RGBA image \<open>remove\<close> produces\<close>

datatype session_result = Session | SessionError string

record ia_env =
  ia_project_dir :: string
  ia_raw :: "string list"
  new_session :: session_result
  remove_and_decode :: "string \<Rightarrow> inference"
  ia_exiftool_found :: bool
  ia_exiftool :: "string list \<Rightarrow> int"

record ia_state =
  out_dir :: folder
  log :: "(level \<times> event) list"
  ia_invoked :: "string list list"

definition ia_INPUT_DIR :: "ia_env \<Rightarrow> string" where
  "ia_INPUT_DIR env = path_join (path_join (ia_project_dir env) ''data'') ''raw''"

definition ia_OUTPUT_DIR :: "ia_env \<Rightarrow> string" where
  "ia_OUTPUT_DIR env = path_join (path_join (ia_project_dir env) ''data'') ''sanitized''"

definition ia_discover :: "string list \<Rightarrow> string list" where
  \<comment> \<open>\<open>for ext in extensions: files.extend(list(INPUT_DIR.glob(ext)))\<close>, by file name\<close>
  "ia_discover entries =
     concat (map (\<lambda>ext. filter (\<lambda>name. endswith name ext) entries) extensions)"

definition alpha_of :: "bgra \<Rightarrow> u8" where
  "alpha_of px = (case px of (b, g, r, a) \<Rightarrow> a)"

definition bgr_of :: "bgra \<Rightarrow> bgr" where
  "bgr_of px = (case px of (b, g, r, a) \<Rightarrow> (b, g, r))"

fun sanitize_loop ::
  "ia_env \<Rightarrow> nat \<Rightarrow> string list \<Rightarrow> (string \<times> string) list \<Rightarrow> ia_state
     \<Rightarrow> (string \<times> string) list option \<times> ia_state" where
  \<comment> \<open>\<open>for i, file_path in enumerate(files)\<close>, from index \<open>i\<close> on; \<open>None\<close> for an
     exception that nothing catches\<close>
  "sanitize_loop env i [] mapping s = (Some mapping, s)"
| "sanitize_loop env i (filename # files) mapping s =
     (case remove_and_decode env filename of
        Raised e \<Rightarrow>
          sanitize_loop env (Suc i) files mapping
            (s\<lparr>log := log s @ [(ERROR, EvProcessingError filename e)]\<rparr>)
      | Undecodable \<Rightarrow>
          sanitize_loop env (Suc i) files mapping
            (s\<lparr>log := log s @ [(WARNING, EvDecodeFailed filename)]\<rparr>)
      | Decoded img_rgba \<Rightarrow>
          (let a = map alpha_of img_rgba;
               img_rgb = map bgr_of img_rgba
           in case (if APPLY_DESPILL then green_spill_reduction img_rgb a else Some img_rgb) of
                None \<Rightarrow> (None, s)
              | Some img_rgb' \<Rightarrow>
                  (let comp_final = composite_black img_rgb' a;
                       new_filename = sequence_name i;
                       final_path = path_join (ia_OUTPUT_DIR env) new_filename
                   in sanitize_loop env (Suc i) files
                        (AList.update (path_stem filename) final_path mapping)
                        (s\<lparr>out_dir := imwrite new_filename (Color comp_final) (out_dir s)\<rparr>))))"

definition sanitize_images ::
  "ia_env \<Rightarrow> ia_state \<Rightarrow> (string \<times> string) list option \<times> ia_state" where
  "sanitize_images env s0 =
     (let s1 = s0\<lparr>out_dir := Some []\<rparr>;
          files = ia_discover (ia_raw env)
      in if files = [] then (Some [], s1\<lparr>log := log s1 @ [(ERROR, EvNoImages (ia_INPUT_DIR env))]\<rparr>)
         else
           (let files = sort files;
                s2 = s1\<lparr>log := log s1 @ [(INFO, EvLoadingModel (length files))]\<rparr>
            in case new_session env of
                 SessionError e \<Rightarrow> (Some [], s2\<lparr>log := log s2 @ [(CRITICAL, EvEngineInitFailed e)]\<rparr>)
               | Session \<Rightarrow> sanitize_loop env 0 files [] s2))"

definition raw_index :: "(string \<Rightarrow> string) \<Rightarrow> string \<Rightarrow> string list \<Rightarrow> (string \<times> string) list" where
  \<comment> \<open>the dictionary comprehension \<open>{stem(f): f for f in raw_files}\<close> of both engines: a
     later file with the same base name replaces an earlier one\<close>
  "raw_index stem input_dir raw_files =
     fold (\<lambda>f m. AList.update (stem f) (path_join input_dir f) m) raw_files []"

definition ia_exiftool_cmd :: "string \<Rightarrow> string \<Rightarrow> string list" where
  "ia_exiftool_cmd raw_path san_path =
     [''exiftool'', ''-overwrite_original'', ''-TagsFromFile'', raw_path, ''-all:all'',
      ''-n'', ''-Orientation=1'', san_path]"

fun transfer_loop ::
  "ia_env \<Rightarrow> (string \<times> string) list \<Rightarrow> (string \<times> string) list \<Rightarrow> nat \<Rightarrow> ia_state
     \<Rightarrow> nat \<times> ia_state" where
  "transfer_loop env raw_map [] success_count s = (success_count, s)"
| "transfer_loop env raw_map (item # items) success_count s =
     (case map_of raw_map (fst item) of
        None \<Rightarrow> transfer_loop env raw_map items success_count s
      | Some raw_path \<Rightarrow>
          (let cmd = ia_exiftool_cmd raw_path (snd item);
               s' = s\<lparr>ia_invoked := ia_invoked s @ [cmd]\<rparr>
           in transfer_loop env raw_map items
                (if ia_exiftool env cmd = 0 then Suc success_count else success_count) s'))"

definition transfer_metadata :: "ia_env \<Rightarrow> (string \<times> string) list \<Rightarrow> ia_state \<Rightarrow> ia_state" where
  "transfer_metadata env mapping s0 =
     (let s1 = s0\<lparr>log := log s0 @ [(INFO, EvTransferStart)]\<rparr>
      in if \<not> ia_exiftool_found env then s1\<lparr>log := log s1 @ [(ERROR, EvExiftoolMissing)]\<rparr>
         else
           (let raw_map = raw_index path_stem (ia_INPUT_DIR env) (ia_raw env);
                (success_count, s2) = transfer_loop env raw_map mapping 0 s1
            in s2\<lparr>log := log s2 @ [(INFO, EvTransferDone success_count (length mapping))]\<rparr>))"

definition ia_main :: "ia_env \<Rightarrow> ia_state \<Rightarrow> ending \<times> ia_state" where
  "ia_main env s0 =
     (let s1 = s0\<lparr>log := log s0 @ [(INFO, EvStart)]\<rparr>
      in case sanitize_images env s1 of
           (None, s2) \<Rightarrow> (Traceback, s2)
         | (Some mapping, s2) \<Rightarrow>
             if mapping \<noteq> []
             then (let s3 = transfer_metadata env mapping s2
                   in (Returned, s3\<lparr>log := log s3 @ [(INFO, EvFinished (ia_OUTPUT_DIR env))]\<rparr>))
             else (Returned, s2))"

text \<open>
  What a run of \<open>sanitize_images\<close> keeps: the files whose inference and decoding succeed,
  each with its position in the sorted list; and the record it logs for a file it skips.
\<close>

definition survives :: "ia_env \<Rightarrow> string \<Rightarrow> bool" where
  "survives env name = (case remove_and_decode env name of Decoded img \<Rightarrow> True | _ \<Rightarrow> False)"

definition skip_record :: "ia_env \<Rightarrow> string \<Rightarrow> (level \<times> event) list" where
  "skip_record env name =
     (case remove_and_decode env name of
        Raised e \<Rightarrow> [(ERROR, EvProcessingError name e)]
      | Undecodable \<Rightarrow> [(WARNING, EvDecodeFailed name)]
      | Decoded img \<Rightarrow> [])"

definition kept :: "ia_env \<Rightarrow> nat \<Rightarrow> string list \<Rightarrow> (nat \<times> string) list" where
  "kept env i files = filter (\<lambda>p. survives env (snd p)) (zip [i..<i + length files] files)"

definition ia_out_path :: "ia_env \<Rightarrow> nat \<Rightarrow> string" where
  "ia_out_path env k = path_join (ia_OUTPUT_DIR env) (sequence_name k)"

definition ia_commands :: "(string \<times> string) list \<Rightarrow> (string \<times> string) list \<Rightarrow> string list list" where
  \<comment> \<open>the commands \<open>transfer_metadata\<close> runs: one for each entry of the mapping whose
     original name is the base name of a raw file\<close>
  "ia_commands raw_map items =
     List.map_filter (\<lambda>item. map_option (\<lambda>raw_path. ia_exiftool_cmd raw_path (snd item))
                                 (map_of raw_map (fst item))) items"

section \<open>preprocess.py: the classical engine\<close>

text \<open>
  The OpenCV operations that compute the mask (colour range, region of interest, largest
  component, opening) and the contrast enhancement are parameters of the model; both return
  arrays of the height and width of their argument.
\<close>

record cl_env =
  cl_project_dir :: string
  cl_raw :: "string list"
  imread :: "string \<Rightarrow> bgr list option"
  mask_of :: "bgr list \<Rightarrow> u8 list"
  apply_clahe :: "bgr list \<Rightarrow> bgr list"
  cl_exiftool_found :: bool
  cl_exiftool :: "string list \<Rightarrow> int"

record cl_state =
  temp_dir :: folder
  final_dir :: folder
  cl_printed :: "cl_msg list"
  cl_invoked :: "string list list"

definition cl_INPUT_DIR :: "cl_env \<Rightarrow> string" where
  "cl_INPUT_DIR env = path_join (cl_project_dir env) ''data/raw''"

definition PROCESSED_TEMP_DIR :: "cl_env \<Rightarrow> string" where
  "PROCESSED_TEMP_DIR env = path_join (cl_project_dir env) ''data/processed_temp''"

definition OUTPUT_FINAL_DIR :: "cl_env \<Rightarrow> string" where
  "OUTPUT_FINAL_DIR env = path_join (cl_project_dir env) ''data/sanitized''"

definition cl_discover :: "string list \<Rightarrow> string list" where
  \<comment> \<open>\<open>for ext in extensions: files.extend(glob(os.path.join(INPUT_DIR, ext)))\<close>, by file
     name\<close>
  "cl_discover entries =
     concat (map (\<lambda>ext. filter (\<lambda>name. visible name \<and> endswith name ext) entries) extensions)"

fun stage_1_loop ::
  "cl_env \<Rightarrow> string list \<Rightarrow> (string \<times> string) list \<Rightarrow> cl_state
     \<Rightarrow> (string \<times> string) list \<times> cl_state" where
  "stage_1_loop env [] temp_map s = (temp_map, s)"
| "stage_1_loop env (filename # files) temp_map s =
     (let name = splitext_root filename
      in case imread env filename of
           None \<Rightarrow> stage_1_loop env files temp_map s
         | Some img \<Rightarrow>
             (let final_mask = mask_of env img;
                  img_enhanced = apply_clahe env img;
                  final_img = map2 (\<lambda>px m. case px of (b, g, r) \<Rightarrow> (b, g, r, m)) img_enhanced final_mask;
                  output_path = path_join (PROCESSED_TEMP_DIR env) (name @ ''.png'')
              in stage_1_loop env files (AList.update name output_path temp_map)
                   (s\<lparr>temp_dir := imwrite output_path (ColorAlpha final_img) (temp_dir s)\<rparr>)))"

definition stage_1_image_processing ::
  "cl_env \<Rightarrow> cl_state \<Rightarrow> (string \<times> string) list \<times> cl_state" where
  \<comment> \<open>the files of the temporary directory are kept by their full path, as \<open>temp_map\<close>
     names them\<close>
  "stage_1_image_processing env s0 =
     (let s1 = s0\<lparr>cl_printed := cl_printed s0 @ [ClStage1], temp_dir := Some []\<rparr>;
          files = cl_discover (cl_raw env)
      in if files = [] then ([], s1\<lparr>cl_printed := cl_printed s1 @ [ClErrNoImages (cl_INPUT_DIR env)]\<rparr>)
         else stage_1_loop env files [] s1)"

fun stage_2_loop ::
  "cl_env \<Rightarrow> (string \<times> string) list \<Rightarrow> string list \<Rightarrow> nat \<Rightarrow> (string \<times> string) list
     \<Rightarrow> cl_state \<Rightarrow> (string \<times> string) list option \<times> cl_state" where
  \<comment> \<open>\<open>for original_name in sorted_original_names\<close>, with the counter \<open>count\<close>;
     \<open>None\<close> for a \<open>KeyError\<close>\<close>
  "stage_2_loop env temp_map [] count final_map s = (Some final_map, s)"
| "stage_2_loop env temp_map (original_name # names) count final_map s =
     (case map_of temp_map original_name of
        None \<Rightarrow> (None, s)
      | Some png_path \<Rightarrow>
          (case Option.bind (temp_dir s) (\<lambda>files. map_of files png_path) of
             None \<Rightarrow> stage_2_loop env temp_map names count final_map s
           | Some img \<Rightarrow>
               (let img_jpg = (case img of ColorAlpha px \<Rightarrow> Color (flatten_alpha px) | _ \<Rightarrow> img);
                    new_filename = sequence_name count;
                    final_path = path_join (OUTPUT_FINAL_DIR env) new_filename
                in stage_2_loop env temp_map names (Suc count)
                     (AList.update original_name final_path final_map)
                     (s\<lparr>final_dir := imwrite new_filename img_jpg (final_dir s)\<rparr>))))"

definition stage_2_sanitization ::
  "cl_env \<Rightarrow> (string \<times> string) list \<Rightarrow> cl_state \<Rightarrow> (string \<times> string) list option \<times> cl_state" where
  "stage_2_sanitization env temp_map s0 =
     (let s1 = s0\<lparr>cl_printed := cl_printed s0 @ [ClStage2], final_dir := Some []\<rparr>;
          sorted_original_names = sort (map fst temp_map)
      in stage_2_loop env temp_map sorted_original_names 0 [] s1)"

definition cl_exiftool_cmd :: "string \<Rightarrow> string \<Rightarrow> string list" where
  "cl_exiftool_cmd raw_path final_path =
     [''exiftool'', ''-overwrite_original'', ''-TagsFromFile'', raw_path, ''-all:all'', final_path]"

fun stage_3_loop ::
  "cl_env \<Rightarrow> (string \<times> string) list \<Rightarrow> (string \<times> string) list \<Rightarrow> nat \<Rightarrow> cl_state
     \<Rightarrow> nat \<times> cl_state" where
  "stage_3_loop env raw_path_map [] processed_count s = (processed_count, s)"
| "stage_3_loop env raw_path_map (item # items) processed_count s =
     (case map_of raw_path_map (fst item) of
        None \<Rightarrow> stage_3_loop env raw_path_map items processed_count s
      | Some raw_path \<Rightarrow>
          (let cmd = cl_exiftool_cmd raw_path (snd item);
               s' = s\<lparr>cl_invoked := cl_invoked s @ [cmd]\<rparr>
           in stage_3_loop env raw_path_map items
                (if cl_exiftool env cmd = 0 then Suc processed_count else processed_count) s'))"

definition stage_3_metadata_injection ::
  "cl_env \<Rightarrow> (string \<times> string) list \<Rightarrow> cl_state \<Rightarrow> cl_state" where
  "stage_3_metadata_injection env final_map s0 =
     (let s1 = s0\<lparr>cl_printed := cl_printed s0 @ [ClStage3]\<rparr>;
          raw_files = filter visible (cl_raw env);
          raw_path_map = raw_index splitext_root (cl_INPUT_DIR env) raw_files
      in if \<not> cl_exiftool_found env then s1\<lparr>cl_printed := cl_printed s1 @ [ClErrExiftoolMissing]\<rparr>
         else
           (let (processed_count, s2) = stage_3_loop env raw_path_map final_map 0 s1
            in s2\<lparr>cl_printed := cl_printed s2 @ [ClRestored processed_count]\<rparr>))"

definition cl_main :: "cl_env \<Rightarrow> cl_state \<Rightarrow> ending \<times> cl_state" where
  "cl_main env s0 =
     (let s = s0\<lparr>cl_printed := cl_printed s0 @ [ClBanner]\<rparr>;
          (temp_map, s1) = stage_1_image_processing env s
      in if temp_map = [] then (Returned, s1)
         else
           (case stage_2_sanitization env temp_map s1 of
              (None, s2) \<Rightarrow> (Traceback, s2)
            | (Some final_map, s2) \<Rightarrow>
                (let s3 = stage_3_metadata_injection env final_map s2
                 in (Returned, s3\<lparr>cl_printed := cl_printed s3 @ [ClReady]\<rparr>))))"

text \<open>
  What a run of the classical engine keeps: the raw files \<open>cv2.imread\<close> can read, and of
  the names of \<open>temp_map\<close> those whose temporary file can be read back.
\<close>

definition cl_readable :: "cl_env \<Rightarrow> string \<Rightarrow> bool" where
  "cl_readable env name = (imread env name \<noteq> None)"

definition temp_path :: "cl_env \<Rightarrow> string \<Rightarrow> string" where
  "temp_path env name = path_join (PROCESSED_TEMP_DIR env) (name @ ''.png'')"

definition cl_out_path :: "cl_env \<Rightarrow> nat \<Rightarrow> string" where
  "cl_out_path env k = path_join (OUTPUT_FINAL_DIR env) (sequence_name k)"

definition temp_readable :: "(string \<times> string) list \<Rightarrow> folder \<Rightarrow> string \<Rightarrow> bool" where
  "temp_readable temp_map d name =
     (case map_of temp_map name of
        None \<Rightarrow> False
      | Some png_path \<Rightarrow> Option.bind d (\<lambda>files. map_of files png_path) \<noteq> None)"
definition cl_commands :: "(string \<times> string) list \<Rightarrow> (string \<times> string) list \<Rightarrow> string list list" where
  \<comment> \<open>the commands \<open>stage_3_metadata_injection\<close> runs\<close>
  "cl_commands raw_map items =
     List.map_filter (\<lambda>item. map_option (\<lambda>raw_path. cl_exiftool_cmd raw_path (snd item))
                                 (map_of raw_map (fst item))) items"

definition cl_final_map :: "cl_env \<Rightarrow> cl_state \<Rightarrow> (string \<times> string) list option" where
  \<comment> \<open>the \<open>final_map\<close> that \<open>main\<close> hands to stage 3; \<open>None\<close> when it returns
     before stage 2\<close>
  "cl_final_map env s0 =
     (let (temp_map, s1) = stage_1_image_processing env (s0\<lparr>cl_printed := cl_printed s0 @ [ClBanner]\<rparr>)
      in if temp_map = [] then None else fst (stage_2_sanitization env temp_map s1))"

section \<open>Example runs\<close>

definition one_corrupt_ia :: ia_env where
  \<comment> \<open>two photographs; the output of the network for \<open>a.jpg\<close> does not decode\<close>
  "one_corrupt_ia =
     \<lparr>ia_project_dir = ''/proj'', ia_raw = [''b.jpg'', ''a.jpg''],
      new_session = Session,
      remove_and_decode =
        (\<lambda>name. if name = ''a.jpg'' then Undecodable else Decoded [(0, 0, 0, 0)]),
      ia_exiftool_found = True, ia_exiftool = (\<lambda>cmd. 0)\<rparr>"

definition fresh_ia :: ia_state where
  "fresh_ia = \<lparr>out_dir = None, log = [], ia_invoked = []\<rparr>"

definition no_input_ia :: ia_env where
  \<comment> \<open>an input directory without photographs\<close>
  "no_input_ia =
     \<lparr>ia_project_dir = ''/proj'', ia_raw = [''notes.txt''],
      new_session = Session,
      remove_and_decode = (\<lambda>name. Undecodable),
      ia_exiftool_found = True, ia_exiftool = (\<lambda>cmd. 0)\<rparr>"

definition earlier_output_ia :: ia_state where
  \<comment> \<open>the output directory holds a frame of an earlier run\<close>
  "earlier_output_ia =
     \<lparr>out_dir = Some [(''1000.jpg'', Color [(1, 2, 3)])], log = [], ia_invoked = []\<rparr>"

definition one_corrupt_cl :: cl_env where
  \<comment> \<open>two photographs; \<open>cv2.imread\<close> cannot read \<open>a.jpg\<close>\<close>
  "one_corrupt_cl =
     \<lparr>cl_project_dir = ''/proj'', cl_raw = [''b.jpg'', ''a.jpg''],
      imread = (\<lambda>name. if name = ''a.jpg'' then None else Some [(10, 200, 50)]),
      mask_of = (\<lambda>img. map (\<lambda>px. 255) img),
      apply_clahe = (\<lambda>img. img),
      cl_exiftool_found = True, cl_exiftool = (\<lambda>cmd. 0)\<rparr>"

definition fresh_cl :: cl_state where
  "fresh_cl = \<lparr>temp_dir = None, final_dir = None, cl_printed = [], cl_invoked = []\<rparr>"

definition numbered_copy_ia :: ia_env where
  \<comment> \<open>a photograph and the copy of it that a file manager numbers; both are valid\<close>
  "numbered_copy_ia =
     \<lparr>ia_project_dir = ''/proj'', ia_raw = [''img.jpg'', ''img (1).jpg''],
      new_session = Session,
      remove_and_decode = (\<lambda>name. Decoded [(0, 0, 0, 0)]),
      ia_exiftool_found = True, ia_exiftool = (\<lambda>cmd. 0)\<rparr>"

definition numbered_copy_cl :: cl_env where
  \<comment> \<open>the same two photographs, for the classical engine\<close>
  "numbered_copy_cl =
     \<lparr>cl_project_dir = ''/proj'', cl_raw = [''img.jpg'', ''img (1).jpg''],
      imread = (\<lambda>name. Some [(10, 200, 50)]),
      mask_of = (\<lambda>img. map (\<lambda>px. 255) img),
      apply_clahe = (\<lambda>img. img),
      cl_exiftool_found = True, cl_exiftool = (\<lambda>cmd. 0)\<rparr>"

section \<open>Rounding: error bound and exact cases\<close>

lemma round_half_even_error: "\<bar>of_int (round_half_even q) - q\<bar> \<le> 1 / 2"
  unfolding round_half_even_def Let_def by (auto simp: abs_if) linarith+

lemma round_half_even_of_int [simp]: "round_half_even (of_int n) = n"
  by (simp add: round_half_even_def)

lemma binade_le:
  assumes "0 < x" shows "2 powi (binade x) \<le> x"
proof -
  obtain p q where pq: "quotient_of x = (p, q)" by (cases "quotient_of x")
  have q: "0 < q" using quotient_of_denom_pos[OF pq] .
  have x: "x = of_int p / of_int q" using quotient_of_div[OF pq] .
  have p: "0 < p" using assms q x by (simp add: zero_less_divide_iff)
  let ?d = "bitlen p - bitlen q"
  show ?thesis
  proof (cases "2 powi ?d \<le> x")
    case True
    then show ?thesis by (simp add: binade_def pq)
  next
    case False
    have bp: "1 \<le> bitlen p" using p by (simp add: bitlen_alt_def)
    have bq: "1 \<le> bitlen q" using q by (simp add: bitlen_alt_def)
    have 1: "(2::rat) powi (bitlen p - 1) \<le> of_int p"
    proof -
      have "(2::int) ^ nat (bitlen p - 1) \<le> p" using bitlen_bounds[OF p] by simp
      then have "(of_int ((2::int) ^ nat (bitlen p - 1)) :: rat) \<le> of_int p"
        by (simp only: of_int_le_iff)
      then show ?thesis using bp by (simp add: power_int_def)
    qed
    have 2: "(of_int q :: rat) \<le> 2 powi (bitlen q)"
    proof -
      have "q < (2::int) ^ nat (bitlen q)" using bitlen_bounds[OF q] by simp
      then have "(of_int q :: rat) < of_int ((2::int) ^ nat (bitlen q))"
        by (simp only: of_int_less_iff)
      then show ?thesis using bq by (simp add: power_int_def)
    qed
    have "(2::rat) powi (?d - 1) = 2 powi (bitlen p - 1) / 2 powi (bitlen q)"
      by (simp add: power_int_diff)
    also have "\<dots> \<le> of_int p / 2 powi (bitlen q)"
      using 1 by (simp add: divide_right_mono)
    also have "\<dots> \<le> of_int p / of_int q"
      using 2 p q by (simp add: divide_left_mono)
    finally have "(2::rat) powi (?d - 1) \<le> x" by (simp only: x)
    moreover have "binade x = ?d - 1" using False by (simp add: binade_def pq)
    ultimately show ?thesis by simp
  qed
qed

lemma binade_gt:
  assumes "0 < x" shows "x < 2 powi (binade x + 1)"
proof -
  obtain p q where pq: "quotient_of x = (p, q)" by (cases "quotient_of x")
  have q: "0 < q" using quotient_of_denom_pos[OF pq] .
  have x: "x = of_int p / of_int q" using quotient_of_div[OF pq] .
  have p: "0 < p" using assms q x by (simp add: zero_less_divide_iff)
  let ?d = "bitlen p - bitlen q"
  show ?thesis
  proof (cases "2 powi ?d \<le> x")
    case False
    then show ?thesis by (simp add: binade_def pq)
  next
    case True
    have bp: "1 \<le> bitlen p" using p by (simp add: bitlen_alt_def)
    have bq: "1 \<le> bitlen q" using q by (simp add: bitlen_alt_def)
    have 1: "(of_int p :: rat) < 2 powi (bitlen p)"
    proof -
      have "p < (2::int) ^ nat (bitlen p)" using bitlen_bounds[OF p] by simp
      then have "(of_int p :: rat) < of_int ((2::int) ^ nat (bitlen p))"
        by (simp only: of_int_less_iff)
      then show ?thesis using bp by (simp add: power_int_def)
    qed
    have 2: "(2::rat) powi (bitlen q - 1) \<le> of_int q"
    proof -
      have "(2::int) ^ nat (bitlen q - 1) \<le> q" using bitlen_bounds[OF q] by simp
      then have "(of_int ((2::int) ^ nat (bitlen q - 1)) :: rat) \<le> of_int q"
        by (simp only: of_int_le_iff)
      then show ?thesis using bq by (simp add: power_int_def)
    qed
    have "of_int p / of_int q \<le> (of_int p :: rat) / 2 powi (bitlen q - 1)"
      using 2 p q by (simp add: divide_left_mono)
    also have "\<dots> < 2 powi (bitlen p) / 2 powi (bitlen q - 1)"
      using 1 by (simp add: divide_strict_right_mono)
    also have "\<dots> = (2::rat) powi (?d + 1)"
      by (simp add: power_int_diff power_int_add)
    finally have "x < (2::rat) powi (?d + 1)" by (simp only: x)
    moreover have "binade x = ?d" using True by (simp add: binade_def pq)
    ultimately show ?thesis by simp
  qed
qed

lemma fl_round_error:
  assumes "0 < x"
  shows "\<bar>fl_round p x - x\<bar> \<le> x / 2 ^ p"
proof -
  define e where "e = binade x"
  define u :: rat where "u = 2 powi (e - int p + 1)"
  have u: "0 < u" by (simp add: u_def)
  have fl: "fl_round p x = of_int (round_half_even (x / u)) * u"
    using assms by (simp add: fl_round_def u_def e_def Let_def)
  have "\<bar>of_int (round_half_even (x / u)) - x / u\<bar> \<le> 1 / 2"
    by (rule round_half_even_error)
  then have "\<bar>of_int (round_half_even (x / u)) - x / u\<bar> * u \<le> 1 / 2 * u"
    using u by (simp add: mult_right_mono)
  moreover have "\<bar>of_int (round_half_even (x / u)) - x / u\<bar> * u = \<bar>fl_round p x - x\<bar>"
    using u by (simp add: fl abs_mult[symmetric] left_diff_distrib abs_mult_pos)
  ultimately have 1: "\<bar>fl_round p x - x\<bar> \<le> u / 2" by simp
  have "u / 2 = 2 powi e / 2 ^ p"
    by (simp add: u_def power_int_diff power_int_add)
  also have "\<dots> \<le> x / 2 ^ p"
    using binade_le[OF assms] by (simp add: e_def divide_right_mono)
  finally show ?thesis using 1 by linarith
qed

lemma fl_round_exact:
  assumes "x = of_int m * 2 powi k" and "\<bar>x\<bar> < 2 powi (k + int p)"
  shows "fl_round p x = x"
proof (cases "x = 0")
  case True
  then show ?thesis by (simp add: fl_round_def)
next
  case False
  define e where "e = binade \<bar>x\<bar>"
  have pos: "0 < \<bar>x\<bar>" using False by simp
  have "(2::rat) powi e \<le> \<bar>x\<bar>" unfolding e_def by (rule binade_le[OF pos])
  with assms(2) have "(2::rat) powi e < 2 powi (k + int p)" by linarith
  have ek: "e < k + int p"
  proof (rule ccontr)
    assume "\<not> e < k + int p"
    then have "k + int p \<le> e" by simp
    then have "(2::rat) powi (k + int p) \<le> 2 powi e" by (rule power_int_increasing) simp
    with \<open>(2::rat) powi e < 2 powi (k + int p)\<close> show False by simp
  qed
  define j where "j = nat (k - (e - int p + 1))"
  have j: "k - (e - int p + 1) = int j" using ek by (simp add: j_def)
  have "\<bar>x\<bar> / 2 powi (e - int p + 1) = of_int \<bar>m\<bar> * 2 powi (k - (e - int p + 1))"
    by (simp add: assms(1) abs_mult power_int_diff)
  also have "\<dots> = of_int (\<bar>m\<bar> * 2 ^ j)"
    by (simp only: j power_int_of_nat) simp
  finally have q: "\<bar>x\<bar> / 2 powi (e - int p + 1) = of_int (\<bar>m\<bar> * 2 ^ j)" .
  have "fl_round p x = sgn x * (\<bar>x\<bar> / 2 powi (e - int p + 1)) * 2 powi (e - int p + 1)"
    using False unfolding fl_round_def Let_def e_def[symmetric] q
    by (simp only: round_half_even_of_int if_False)
  also have "\<dots> = sgn x * \<bar>x\<bar>" by simp
  also have "\<dots> = x" by (rule sgn_mult_abs)
  finally show ?thesis .
qed

section \<open>Conversions between channel values and floats\<close>

lemma k02: "f32 (f64 (1 - DESPILL_FACTOR)) = 13421773 / 67108864"
  by code_simp
lemma k08: "f32 DESPILL_FACTOR = 13421773 / 16777216"
  by code_simp

lemma of_u8_bounds: "0 \<le> of_u8 w" "of_u8 w \<le> 255"
proof -
  show "0 \<le> of_u8 w" unfolding of_u8_def by (rule of_nat_0_le_iff)
  have "unat w < 256" using unsigned_less[of w, where ?'a = nat] by simp
  then have "unat w \<le> 255" by simp
  then have "(of_nat (unat w) :: rat) \<le> of_nat 255" by (simp only: of_nat_le_iff)
  then show "of_u8 w \<le> 255" unfolding of_u8_def by (simp only: of_nat_numeral)
qed

lemma f32_of_u8 [simp]: "f32 (of_u8 w) = of_u8 w"
proof -
  have "of_u8 w = of_int (int (unat w)) * 2 powi 0"
    unfolding of_u8_def by (simp only: of_int_of_nat_eq power_int_0_right mult_1_right)
  moreover have "\<bar>of_u8 w\<bar> < 2 powi (0 + int 24)" using of_u8_bounds[of w] by simp
  ultimately show ?thesis unfolding f32_def by (rule fl_round_exact)
qed

lemma astype_uint8_of_u8 [simp]: "astype_uint8 (of_u8 w) = w"
proof -
  define n where "n = unat w"
  have w: "word_of_int (int n) = w" by (simp add: n_def)
  have "astype_uint8 (of_nat n) = word_of_int (int n)"
    by (simp add: astype_uint8_def)
  then show ?thesis by (simp only: of_u8_def n_def[symmetric] w)
qed

lemma rb_avg_exact: "f32 (f32 (of_u8 r + of_u8 b) / 2) = (of_u8 r + of_u8 b) / 2"
proof -
  have s: "of_u8 r + of_u8 b = of_int (int (unat r + unat b))"
    unfolding of_u8_def by (simp only: of_int_of_nat_eq of_nat_add)
  have bnd: "0 \<le> of_u8 r + of_u8 b" "of_u8 r + of_u8 b \<le> 510"
    using of_u8_bounds[of r] of_u8_bounds[of b] by linarith+
  have 1: "f32 (of_u8 r + of_u8 b) = of_u8 r + of_u8 b"
    unfolding f32_def
  proof (rule fl_round_exact)
    show "of_u8 r + of_u8 b = of_int (int (unat r + unat b)) * 2 powi 0" using s by simp
    show "\<bar>of_u8 r + of_u8 b\<bar> < 2 powi (0 + int 24)" using bnd by simp
  qed
  have 2: "f32 ((of_u8 r + of_u8 b) / 2) = (of_u8 r + of_u8 b) / 2"
    unfolding f32_def
  proof (rule fl_round_exact)
    show "(of_u8 r + of_u8 b) / 2 = of_int (int (unat r + unat b)) * 2 powi (- 1)"
      using s by (simp add: power_int_minus)
    show "\<bar>(of_u8 r + of_u8 b) / 2\<bar> < 2 powi (- 1 + int 24)" using bnd by simp
  qed
  show ?thesis by (simp only: 1 2)
qed

lemma despill_pixel_blue_red:
  "fst (despill_pixel (b, g, r) m) = b" "snd (snd (despill_pixel (b, g, r) m)) = r"
  by (simp_all add: despill_pixel_def Let_def)

lemma despill_pixel_green_kept:
  assumes "m = 0 \<or> \<not> (of_u8 r + of_u8 b) / 2 < of_u8 g"
  shows "fst (snd (despill_pixel (b, g, r) m)) = g"
  using assms by (auto simp add: despill_pixel_def Let_def rb_avg_exact)

lemma fl_round_zero [simp]: "fl_round p 0 = 0"
  by (simp add: fl_round_def)

lemma fl_round_bounds:
  assumes "0 \<le> x"
  shows "x - x / 2 ^ p \<le> fl_round p x" and "fl_round p x \<le> x + x / 2 ^ p"
proof -
  have "\<bar>fl_round p x - x\<bar> \<le> x / 2 ^ p"
  proof (cases "x = 0")
    case True then show ?thesis by simp
  next
    case False
    with assms have "0 < x" by simp
    then show ?thesis by (rule fl_round_error)
  qed
  then show "x - x / 2 ^ p \<le> fl_round p x" and "fl_round p x \<le> x + x / 2 ^ p"
    by linarith+
qed

lemma of_u8_astype_uint8:
  assumes "0 \<le> x" and "x < 256"
  shows "of_u8 (astype_uint8 x) = of_int \<lfloor>x\<rfloor>"
proof -
  define z where "z = \<lfloor>x\<rfloor>"
  have z0: "0 \<le> z" using assms(1) by (simp add: z_def)
  have z1: "z < 256" using assms(2) by (simp add: z_def floor_less_iff)
  have "unat (word_of_int z :: u8) = nat z"
    using z0 z1 by (simp add: unat_eq_nat_uint uint_word_of_int take_bit_eq_mod)
  then have "(of_nat (unat (word_of_int z :: u8)) :: rat) = of_int z"
    using z0 by (simp only: of_nat_nat)
  then show ?thesis
    using assms(1) unfolding of_u8_def astype_uint8_def z_def by (simp only: if_True)
qed

lemma avg_half_step:
  assumes "(of_u8 r + of_u8 b) / 2 < of_u8 g"
  shows "(of_u8 r + of_u8 b) / 2 + 1 / 2 \<le> of_u8 g"
proof -
  define R B G where "R = unat r" and "B = unat b" and "G = unat g"
  have a: "(of_nat R + of_nat B) / 2 < (of_nat G :: rat)"
    using assms by (simp only: of_u8_def R_def B_def G_def)
  then have "(of_nat (R + B) :: rat) < of_nat (2 * G)"
    by (simp add: field_simps)
  then have "R + B < 2 * G" by (simp only: of_nat_less_iff)
  then have "R + B + 1 \<le> 2 * G" by simp
  then have "(of_nat (R + B + 1) :: rat) \<le> of_nat (2 * G)"
    by (simp only: of_nat_le_iff)
  then have "(of_nat R + of_nat B) / 2 + 1 / 2 \<le> (of_nat G :: rat)"
    by (simp add: field_simps)
  then show ?thesis by (simp only: of_u8_def R_def B_def G_def)
qed

lemma despill_value_bounds:
  fixes G A :: rat
  assumes G: "G \<le> 255" and A: "0 \<le> A" and AG: "A + 1 / 2 \<le> G"
  defines "F \<equiv> f32 (f32 (G * (13421773 / 67108864)) + f32 (A * (13421773 / 16777216)))"
  shows "A < F" and "F < G"
proof -
  define t1 where "t1 = f32 (G * (13421773 / 67108864))"
  define t2 where "t2 = f32 (A * (13421773 / 16777216))"
  have G0: "0 \<le> G * (13421773 / 67108864)" using A AG by simp
  have A0: "0 \<le> A * (13421773 / 16777216)" using A by simp
  have t1: "G * (13421773 / 67108864) - G * (13421773 / 67108864) / 2 ^ 24 \<le> t1"
           "t1 \<le> G * (13421773 / 67108864) + G * (13421773 / 67108864) / 2 ^ 24"
    unfolding t1_def f32_def using fl_round_bounds[OF G0, of 24] by simp_all
  have t2: "A * (13421773 / 16777216) - A * (13421773 / 16777216) / 2 ^ 24 \<le> t2"
           "t2 \<le> A * (13421773 / 16777216) + A * (13421773 / 16777216) / 2 ^ 24"
    unfolding t2_def f32_def using fl_round_bounds[OF A0, of 24] by simp_all
  have s0: "0 \<le> t1 + t2" using t1(1) t2(1) A AG by (simp add: add_divide_distrib; linarith)
  have F_eq: "F = fl_round 24 (t1 + t2)" by (simp add: F_def t1_def t2_def f32_def)
  have F: "t1 + t2 - (t1 + t2) / 2 ^ 24 \<le> F" "F \<le> t1 + t2 + (t1 + t2) / 2 ^ 24"
    unfolding F_eq using fl_round_bounds[OF s0, of 24] by simp_all
  show "A < F" using t1 t2 F G A AG by (simp add: add_divide_distrib; linarith)
  show "F < G" using t1 t2 F G A AG by (simp add: add_divide_distrib; linarith)
qed

lemma despill_green_bound:
  assumes "m \<noteq> 0" and "(of_u8 r + of_u8 b) / 2 < of_u8 g"
  shows "of_u8 (fst (snd (despill_pixel (b, g, r) m))) < of_u8 g"
    and "(of_u8 r + of_u8 b) / 2 - 1 < of_u8 (fst (snd (despill_pixel (b, g, r) m)))"
proof -
  define A where "A = (of_u8 r + of_u8 b) / 2"
  define G where "G = of_u8 g"
  define F where "F = f32 (f32 (G * (13421773 / 67108864)) + f32 (A * (13421773 / 16777216)))"
  have m: "0 < m" using assms(1) by (simp add: word_greater_zero_iff)
  have g: "fst (snd (despill_pixel (b, g, r) m)) = astype_uint8 F"
    using assms(2) m
    by (simp add: despill_pixel_def Let_def rb_avg_exact k02 k08 F_def A_def G_def)
  have G: "G \<le> 255" unfolding G_def by (rule of_u8_bounds)
  have A: "0 \<le> A" unfolding A_def using of_u8_bounds(1)[of r] of_u8_bounds(1)[of b] by simp
  have AG: "A + 1 / 2 \<le> G" unfolding A_def G_def using assms(2) by (rule avg_half_step)
  have F1: "A < F" and F2: "F < G"
    unfolding F_def using despill_value_bounds[OF G A AG] by simp_all
  have "0 \<le> F" using A F1 by linarith
  moreover have "F < 256" using F2 G by linarith
  ultimately have o: "of_u8 (astype_uint8 F) = of_int \<lfloor>F\<rfloor>" by (rule of_u8_astype_uint8)
  have "of_int \<lfloor>F\<rfloor> \<le> F" by simp
  then show "of_u8 (fst (snd (despill_pixel (b, g, r) m))) < of_u8 g"
    using F2 unfolding g o G_def by linarith
  have "F - 1 < of_int \<lfloor>F\<rfloor>" by linarith
  then show "(of_u8 r + of_u8 b) / 2 - 1 < of_u8 (fst (snd (despill_pixel (b, g, r) m)))"
    using F1 unfolding g o A_def by linarith
qed



section \<open>Spill suppression\<close>

lemma green_spill_reduction_nth:
  assumes "length img = length alpha" and "i < length img"
  shows "green_spill_reduction img alpha = Some (map2 despill_pixel img alpha)"
    and "map2 despill_pixel img alpha ! i = despill_pixel (img ! i) (alpha ! i)"
  using assms by (simp_all add: green_spill_reduction_def)

text \<open>
  Claim C9. \<open>green_spill_reduction\<close> returns an image of the same size whose blue and red
  channels are those of its argument at every pixel, and whose green channel is that of its
  argument at every pixel where the alpha is zero or the green value does not exceed the
  average of red and blue.
\<close>

theorem spill_reduction_changes_only_spilled_green:
  assumes "length img = length alpha" and "i < length img"
  shows "\<exists>out. green_spill_reduction img alpha = Some out \<and> length out = length img
           \<and> blue (out ! i) = blue (img ! i)
           \<and> red (out ! i) = red (img ! i)
           \<and> (alpha ! i = 0 \<or> \<not> rb_average (img ! i) < of_u8 (green (img ! i))
                \<longrightarrow> green (out ! i) = green (img ! i))"
proof -
  obtain b g r where px: "img ! i = (b, g, r)" by (cases "img ! i")
  let ?out = "map2 despill_pixel img alpha"
  have 1: "green_spill_reduction img alpha = Some ?out"
    by (rule green_spill_reduction_nth(1)[OF assms])
  have 2: "length ?out = length img" using assms(1) by simp
  have n: "?out ! i = despill_pixel (b, g, r) (alpha ! i)"
    using green_spill_reduction_nth(2)[OF assms] by (simp add: px)
  have 3: "blue (?out ! i) = blue (img ! i)"
    by (simp only: n px blue_def despill_pixel_blue_red fst_conv)
  have 4: "red (?out ! i) = red (img ! i)"
    by (simp only: n px red_def despill_pixel_blue_red snd_conv)
  have 5: "alpha ! i = 0 \<or> \<not> rb_average (img ! i) < of_u8 (green (img ! i))
             \<longrightarrow> green (?out ! i) = green (img ! i)"
  proof
    assume "alpha ! i = 0 \<or> \<not> rb_average (img ! i) < of_u8 (green (img ! i))"
    then have "alpha ! i = 0 \<or> \<not> (of_u8 r + of_u8 b) / 2 < of_u8 g"
      by (simp add: px rb_average_def green_def red_def blue_def)
    then have "fst (snd (despill_pixel (b, g, r) (alpha ! i))) = g"
      by (rule despill_pixel_green_kept)
    then show "green (?out ! i) = green (img ! i)"
      by (simp only: n px green_def fst_conv snd_conv)
  qed
  from 1 2 3 4 5 show ?thesis by blast
qed

theorem spill_reduction_changes_only_spilled_green_witness:
  "length [(10, 200, 50), (7, 3, 9) :: bgr] = length [255, 0 :: u8]
   \<and> 1 < length [(10, 200, 50), (7, 3, 9) :: bgr]
   \<and> (\<exists>out. green_spill_reduction [(10, 200, 50), (7, 3, 9)] [255, 0] = Some out
          \<and> length out = length [(10, 200, 50), (7, 3, 9) :: bgr]
          \<and> blue (out ! 1) = 7 \<and> red (out ! 1) = 9 \<and> green (out ! 1) = 3)"
proof -
  have h1: "length [(10, 200, 50), (7, 3, 9) :: bgr] = length [255, 0 :: u8]" by simp
  have h2: "1 < length [(10, 200, 50), (7, 3, 9) :: bgr]" by simp
  have h3: "[255, 0 :: u8] ! 1 = 0" by simp
  have px: "[(10, 200, 50), (7, 3, 9) :: bgr] ! 1 = (7, 3, 9)" by simp
  from spill_reduction_changes_only_spilled_green[OF h1 h2]
  obtain out where o: "green_spill_reduction [(10, 200, 50), (7, 3, 9)] [255, 0] = Some out"
      "length out = length [(10, 200, 50), (7, 3, 9) :: bgr]"
      "blue (out ! 1) = blue ([(10, 200, 50), (7, 3, 9)] ! 1)"
      "red (out ! 1) = red ([(10, 200, 50), (7, 3, 9)] ! 1)"
      "green (out ! 1) = green ([(10, 200, 50), (7, 3, 9) :: bgr] ! 1)"
    using h3 by blast
  have "blue (out ! 1) = 7" "red (out ! 1) = 9" "green (out ! 1) = 3"
    using o(3-5) unfolding px by (simp_all add: blue_def red_def green_def)
  with o(1,2) h1 h2 show ?thesis by blast
qed

text \<open>
  Claim C6, as stated, fails on the value the function returns: the blend is converted
  back to \<open>uint8\<close>, which drops its fraction. For green 1, red 1 and blue 0 inside the mask
  the average is 1/2 and the blend is 0.6, stored as 0: below the average.
\<close>

theorem corrected_green_below_average:
  "(255 :: u8) \<noteq> 0
   \<and> rb_average (0, 1, 1) < of_u8 (green (0, 1, 1))
   \<and> green (despill_pixel (0, 1, 1) 255) = 0
   \<and> \<not> rb_average (0, 1, 1) < of_u8 (green (despill_pixel (0, 1, 1) 255))"
proof -
  have "despill_pixel (0, 1, 1) 255 = (0, 0, 1)" by code_simp
  then show ?thesis by (simp add: green_def rb_average_def red_def blue_def of_u8_def)
qed

text \<open>
  Claim C6, amended. For a pixel inside the mask whose green value exceeds the average of
  red and blue, the green value that \<open>green_spill_reduction\<close> returns is strictly less
  than the original green value and greater than that average minus one.
\<close>

theorem corrected_green_bounds:
  assumes "m \<noteq> 0" and "rb_average px < of_u8 (green px)"
  shows "of_u8 (green (despill_pixel px m)) < of_u8 (green px)
       \<and> rb_average px - 1 < of_u8 (green (despill_pixel px m))"
proof -
  obtain b g r where px: "px = (b, g, r)" by (cases px)
  have a: "(of_u8 r + of_u8 b) / 2 < of_u8 g"
    using assms(2) by (simp add: px rb_average_def green_def red_def blue_def)
  show ?thesis
    using despill_green_bound[OF assms(1) a]
    by (simp add: px rb_average_def green_def red_def blue_def)
qed

theorem corrected_green_bounds_witness:
  "(255 :: u8) \<noteq> 0
   \<and> rb_average (10, 200, 50) < of_u8 (green (10, 200, 50))
   \<and> of_u8 (green (despill_pixel (10, 200, 50) 255)) < of_u8 (green (10, 200, 50))
   \<and> rb_average (10, 200, 50) - 1 < of_u8 (green (despill_pixel (10, 200, 50) 255))"
proof -
  have h1: "(255 :: u8) \<noteq> 0" by simp
  have h2: "rb_average (10, 200, 50) < of_u8 (green (10, 200, 50))"
    by (simp add: rb_average_def green_def red_def blue_def of_u8_def)
  show ?thesis
    using corrected_green_bounds[OF h1 h2] h1 h2 by simp
qed

section \<open>Compositing on black\<close>


lemma flatten_alpha_nth:
  assumes "i < length img" and "img ! i = (b, g, r, a)"
  shows "flatten_alpha img ! i = (bitwise_and_mask b a, bitwise_and_mask g a, bitwise_and_mask r a)"
  using assms by (simp add: flatten_alpha_def)

lemma composite_black_nth:
  assumes "length img = length alpha" and "i < length img" and "img ! i = (b, g, r)"
  shows "composite_black img alpha ! i =
           (blend_channel b (alpha ! i), blend_channel g (alpha ! i), blend_channel r (alpha ! i))"
  using assms by (simp add: composite_black_def)




section \<open>Sequence names\<close>

lemma digit_val_digit_char:
  assumes "d < 10" shows "digit_val (digit_char d) = d"
proof -
  from assms have "d \<in> {0, 1, 2, 3, 4, 5, 6, 7, 8, 9}" by auto
  then show ?thesis by (auto simp: digit_val_def digit_char_def)
qed

lemma nat_of_digits_string_of_nat: "nat_of_digits (string_of_nat n) = n"
proof (induction n rule: string_of_nat.induct)
  case (1 n)
  show ?case
  proof (cases "n < 10")
    case True
    then show ?thesis
      by (subst string_of_nat.simps) (simp add: nat_of_digits_def digit_val_digit_char)
  next
    case False
    have "nat_of_digits (string_of_nat n) =
          10 * nat_of_digits (string_of_nat (n div 10)) + digit_val (digit_char (n mod 10))"
      using False by (subst string_of_nat.simps) (simp add: nat_of_digits_def)
    also have "\<dots> = 10 * (n div 10) + n mod 10"
      using 1[OF False] by (simp add: digit_val_digit_char)
    finally show ?thesis by simp
  qed
qed

lemma string_of_nat_inj: "string_of_nat m = string_of_nat n \<Longrightarrow> m = n"
  by (metis nat_of_digits_string_of_nat)

lemma sequence_name_inj [simp]: "sequence_name i = sequence_name j \<longleftrightarrow> i = j"
  by (auto simp: sequence_name_def dest: string_of_nat_inj)

lemma update_fresh: "k \<notin> fst ` set al \<Longrightarrow> AList.update k v al = al @ [(k, v)]"
  by (induction al) auto

section \<open>The loop of the learned engine\<close>

lemma kept_Nil [simp]: "kept env i [] = []"
  by (simp add: kept_def)

lemma kept_Cons:
  "kept env i (f # fs) = (if survives env f then [(i, f)] else []) @ kept env (Suc i) fs"
proof -
  have "[i..<i + length (f # fs)] = i # [Suc i..<Suc i + length fs]"
    by (subst upt_rec) simp
  then show ?thesis by (simp add: kept_def)
qed

lemma despill_same_shape:
  "green_spill_reduction (map bgr_of img) (map alpha_of img) \<noteq> None"
  by (simp add: green_spill_reduction_def)

lemma sanitize_loop_files:
  assumes "out_dir s = Some d" and "\<forall>k\<ge>i. sequence_name k \<notin> fst ` set d"
  shows "\<exists>m' d'. sanitize_loop env i files mapping s =
            (Some m', s\<lparr>out_dir := Some d', log := log s @ concat (map (skip_record env) files)\<rparr>)
          \<and> map fst d' = map fst d @ map (\<lambda>p. sequence_name (fst p)) (kept env i files)"
  using assms
proof (induction files arbitrary: i mapping s d)
  case Nil
  then show ?case by (intro exI[of _ mapping] exI[of _ d]) simp
next
  case (Cons f fs)
  show ?case
  proof (cases "remove_and_decode env f")
    case (Raised e)
    let ?s = "s\<lparr>log := log s @ [(ERROR, EvProcessingError f e)]\<rparr>"
    have "out_dir ?s = Some d" using Cons.prems(1) by simp
    moreover have "\<forall>k\<ge>Suc i. sequence_name k \<notin> fst ` set d" using Cons.prems(2) by simp
    ultimately obtain m' d' where
      "sanitize_loop env (Suc i) fs mapping ?s =
         (Some m', ?s\<lparr>out_dir := Some d', log := log ?s @ concat (map (skip_record env) fs)\<rparr>)"
      "map fst d' = map fst d @ map (\<lambda>p. sequence_name (fst p)) (kept env (Suc i) fs)"
      using Cons.IH[of ?s d "Suc i" mapping] by blast
    moreover have "\<not> survives env f" "skip_record env f = [(ERROR, EvProcessingError f e)]"
      using Raised by (simp_all add: survives_def skip_record_def)
    ultimately show ?thesis
      using Raised by (intro exI[of _ m'] exI[of _ d']) (simp add: kept_Cons)
  next
    case Undecodable
    let ?s = "s\<lparr>log := log s @ [(WARNING, EvDecodeFailed f)]\<rparr>"
    have "out_dir ?s = Some d" using Cons.prems(1) by simp
    moreover have "\<forall>k\<ge>Suc i. sequence_name k \<notin> fst ` set d" using Cons.prems(2) by simp
    ultimately obtain m' d' where
      "sanitize_loop env (Suc i) fs mapping ?s =
         (Some m', ?s\<lparr>out_dir := Some d', log := log ?s @ concat (map (skip_record env) fs)\<rparr>)"
      "map fst d' = map fst d @ map (\<lambda>p. sequence_name (fst p)) (kept env (Suc i) fs)"
      using Cons.IH[of ?s d "Suc i" mapping] by blast
    moreover have "\<not> survives env f" "skip_record env f = [(WARNING, EvDecodeFailed f)]"
      using Undecodable by (simp_all add: survives_def skip_record_def)
    ultimately show ?thesis
      using Undecodable by (intro exI[of _ m'] exI[of _ d']) (simp add: kept_Cons)
  next
    case (Decoded img)
    obtain rgb where rgb: "green_spill_reduction (map bgr_of img) (map alpha_of img) = Some rgb"
      using despill_same_shape[of img] by auto
    let ?c = "Color (composite_black rgb (map alpha_of img))"
    let ?m = "AList.update (path_stem f) (path_join (ia_OUTPUT_DIR env) (sequence_name i)) mapping"
    let ?d = "d @ [(sequence_name i, ?c)]"
    let ?s = "s\<lparr>out_dir := Some ?d\<rparr>"
    have fresh: "sequence_name i \<notin> fst ` set d" using Cons.prems(2) by simp
    have step: "sanitize_loop env i (f # fs) mapping s = sanitize_loop env (Suc i) fs ?m ?s"
      using Decoded rgb Cons.prems(1) fresh
      by (simp add: APPLY_DESPILL_def imwrite_def update_fresh Let_def)
    have "out_dir ?s = Some ?d" by simp
    moreover have "\<forall>k\<ge>Suc i. sequence_name k \<notin> fst ` set ?d"
      using Cons.prems(2) by auto
    ultimately obtain m' d' where
      "sanitize_loop env (Suc i) fs ?m ?s =
         (Some m', ?s\<lparr>out_dir := Some d', log := log ?s @ concat (map (skip_record env) fs)\<rparr>)"
      "map fst d' = map fst ?d @ map (\<lambda>p. sequence_name (fst p)) (kept env (Suc i) fs)"
      using Cons.IH[of ?s ?d "Suc i" ?m] by blast
    moreover have "survives env f" "skip_record env f = []"
      using Decoded by (simp_all add: survives_def skip_record_def)
    ultimately show ?thesis
      unfolding step by (intro exI[of _ m'] exI[of _ d']) (simp add: kept_Cons)
  qed
qed

lemma sanitize_loop_mapping:
  assumes "distinct (map path_stem files)"
    and "\<forall>f\<in>set files. path_stem f \<notin> fst ` set mapping"
  shows "fst (sanitize_loop env i files mapping s) =
           Some (mapping @ map (\<lambda>p. (path_stem (snd p), ia_out_path env (fst p))) (kept env i files))"
  using assms
proof (induction files arbitrary: i mapping s)
  case Nil
  then show ?case by simp
next
  case (Cons f fs)
  have d: "distinct (map path_stem fs)" using Cons.prems(1) by simp
  have nf: "\<forall>g\<in>set fs. path_stem g \<notin> fst ` set mapping" using Cons.prems(2) by simp
  show ?case
  proof (cases "remove_and_decode env f")
    case (Raised e)
    then show ?thesis
      using Cons.IH[OF d nf] by (simp add: kept_Cons survives_def)
  next
    case Undecodable
    then show ?thesis
      using Cons.IH[OF d nf] by (simp add: kept_Cons survives_def)
  next
    case (Decoded img)
    obtain rgb where rgb: "green_spill_reduction (map bgr_of img) (map alpha_of img) = Some rgb"
      using despill_same_shape[of img] by auto
    let ?m = "mapping @ [(path_stem f, ia_out_path env i)]"
    have fresh: "path_stem f \<notin> fst ` set mapping" using Cons.prems(2) by simp
    have nf': "\<forall>g\<in>set fs. path_stem g \<notin> fst ` set ?m"
      using Cons.prems by (auto simp: image_iff)
    show ?thesis
      using Decoded rgb fresh Cons.IH[OF d nf']
      by (simp add: kept_Cons survives_def APPLY_DESPILL_def update_fresh Let_def ia_out_path_def)
  qed
qed

lemma sanitize_images_run:
  assumes "new_session env = Session" and "ia_discover (ia_raw env) \<noteq> []"
  shows "\<exists>m' d'. sanitize_images env s =
            (Some m',
             s\<lparr>out_dir := Some d',
               log := log s @ [(INFO, EvLoadingModel (length (ia_discover (ia_raw env))))]
                        @ concat (map (skip_record env) (sort (ia_discover (ia_raw env))))\<rparr>)
          \<and> map fst d' = map (\<lambda>p. sequence_name (fst p)) (kept env 0 (sort (ia_discover (ia_raw env))))"
proof -
  let ?files = "sort (ia_discover (ia_raw env))"
  let ?s2 = "s\<lparr>out_dir := Some [], log := log s @ [(INFO, EvLoadingModel (length ?files))]\<rparr>"
  have run: "sanitize_images env s = sanitize_loop env 0 ?files [] ?s2"
    using assms by (simp add: sanitize_images_def Let_def)
  have "out_dir ?s2 = Some []" by simp
  moreover have "\<forall>k\<ge>0. sequence_name k \<notin> fst ` set ([] :: (string \<times> image) list)" by simp
  ultimately obtain m' d' where
    "sanitize_loop env 0 ?files [] ?s2 =
       (Some m', ?s2\<lparr>out_dir := Some d', log := log ?s2 @ concat (map (skip_record env) ?files)\<rparr>)"
    "map fst d' = map fst ([] :: (string \<times> image) list)
                    @ map (\<lambda>p. sequence_name (fst p)) (kept env 0 ?files)"
    using sanitize_loop_files[of ?s2 "[]" 0 env ?files "[]"] by blast
  then show ?thesis
    unfolding run by (intro exI[of _ m'] exI[of _ d']) simp
qed

text \<open>
  Claim C1 fails in the learned engine: the name of a frame is made from the index that
  \<open>enumerate\<close> gives the file, which also counts the files that were skipped. With
  \<open>a.jpg\<close> skipped and \<open>b.jpg\<close> processed, the only file written is \<open>1001.jpg\<close>;
  no \<open>1000.jpg\<close> exists.
\<close>

theorem learned_engine_leaves_gap:
  "sanitize_images one_corrupt_ia fresh_ia =
     (Some [(''b'', ''/proj/data/sanitized/1001.jpg'')],
      \<lparr>out_dir = Some [(''1001.jpg'', Color [(0, 0, 0)])],
       log = [(INFO, EvLoadingModel 2), (WARNING, EvDecodeFailed ''a.jpg'')],
       ia_invoked = []\<rparr>)"
  by code_simp

text \<open>
  Claim C3 fails in the learned engine: \<open>sorted(files)\<close> orders the paths, that is
  the file names with their extension, and the index follows that order. The base name
  \<open>img\<close> is less than the base name \<open>img (1)\<close>, but the file name \<open>img (1).jpg\<close>
  sorts before \<open>img.jpg\<close>, a space being less than a full stop: \<open>img (1)\<close> becomes
  frame 1000 and \<open>img\<close> frame 1001. The classical engine sorts the base names and
  numbers the same two files in the order of the claim.
\<close>

theorem learned_engine_orders_by_file_name:
  "(''img'' :: string) < ''img (1)''
   \<and> fst (sanitize_images numbered_copy_ia fresh_ia) =
       Some [(''img (1)'', ''/proj/data/sanitized/1000.jpg''),
             (''img'', ''/proj/data/sanitized/1001.jpg'')]
   \<and> cl_final_map numbered_copy_cl fresh_cl =
       Some [(''img'', ''/proj/data/sanitized/1000.jpg''),
             (''img (1)'', ''/proj/data/sanitized/1001.jpg'')]"
  by code_simp

text \<open>
  Claim C8 fails in both engines: the four patterns are matched with letter case, so of the
  upper-case spellings only \<open>.JPG\<close> is found.
\<close>

theorem uppercase_extensions_not_discovered:
  "ia_discover [''scan.PNG'', ''photo.JPEG'', ''shot.Jpg''] = []
   \<and> cl_discover [''scan.PNG'', ''photo.JPEG'', ''shot.Jpg''] = []
   \<and> ia_discover [''shot.JPG''] = [''shot.JPG'']
   \<and> cl_discover [''shot.JPG''] = [''shot.JPG'']"
  by (simp add: ia_discover_def cl_discover_def extensions_def endswith_def visible_def)

text \<open>
  Claim C10. In the learned engine the output directory is emptied first. A run that finds
  no input image, or whose inference session cannot be built, returns an empty mapping and
  leaves the output directory existing and empty, whatever it held before; \<open>main\<close>
  then returns without running the metadata tool.
\<close>

theorem output_erased_on_early_failure:
  assumes "ia_discover (ia_raw env) = [] \<or> new_session env = SessionError e"
  shows "fst (sanitize_images env s) = Some []
       \<and> out_dir (snd (sanitize_images env s)) = Some []
       \<and> fst (ia_main env s) = Returned
       \<and> out_dir (snd (ia_main env s)) = Some []
       \<and> ia_invoked (snd (ia_main env s)) = ia_invoked s"
proof -
  have 1: "fst (sanitize_images env s') = Some [] \<and> out_dir (snd (sanitize_images env s')) = Some []
           \<and> ia_invoked (snd (sanitize_images env s')) = ia_invoked s'" for s'
    using assms by (auto simp: sanitize_images_def Let_def)
  obtain s2 where s2: "sanitize_images env (s\<lparr>log := log s @ [(INFO, EvStart)]\<rparr>) = (Some [], s2)"
    using 1[of "s\<lparr>log := log s @ [(INFO, EvStart)]\<rparr>"]
    by (cases "sanitize_images env (s\<lparr>log := log s @ [(INFO, EvStart)]\<rparr>)") simp
  have "out_dir s2 = Some []" "ia_invoked s2 = ia_invoked s"
    using 1[of "s\<lparr>log := log s @ [(INFO, EvStart)]\<rparr>"] s2 by simp_all
  then have "fst (ia_main env s) = Returned \<and> out_dir (snd (ia_main env s)) = Some []
             \<and> ia_invoked (snd (ia_main env s)) = ia_invoked s"
    by (simp add: ia_main_def s2)
  with 1[of s] show ?thesis by simp
qed

theorem output_erased_on_early_failure_witness:
  "(ia_discover (ia_raw no_input_ia) = [] \<or> new_session no_input_ia = SessionError [])
   \<and> out_dir earlier_output_ia = Some [(''1000.jpg'', Color [(1, 2, 3)])]
   \<and> fst (sanitize_images no_input_ia earlier_output_ia) = Some []
   \<and> out_dir (snd (sanitize_images no_input_ia earlier_output_ia)) = Some []
   \<and> fst (ia_main no_input_ia earlier_output_ia) = Returned
   \<and> out_dir (snd (ia_main no_input_ia earlier_output_ia)) = Some []"
proof -
  have h: "ia_discover (ia_raw no_input_ia) = [] \<or> new_session no_input_ia = SessionError []"
    by (simp add: no_input_ia_def ia_discover_def extensions_def endswith_def)
  have o: "out_dir earlier_output_ia = Some [(''1000.jpg'', Color [(1, 2, 3)])]"
    by (simp add: earlier_output_ia_def)
  show ?thesis
    using output_erased_on_early_failure[OF h, of earlier_output_ia] h o by simp
qed

section \<open>Metadata transfer\<close>

lemma transfer_loop_invoked:
  "\<exists>n. transfer_loop env raw_map items c s =
          (n, s\<lparr>ia_invoked := ia_invoked s @ ia_commands raw_map items\<rparr>)"
proof (induction items arbitrary: c s)
  case Nil
  then show ?case by (simp add: ia_commands_def List.map_filter_simps)
next
  case (Cons item items)
  show ?case
  proof (cases "map_of raw_map (fst item)")
    case None
    then show ?thesis
      using Cons.IH[of c s] by (simp add: ia_commands_def List.map_filter_simps)
  next
    case (Some raw_path)
    let ?cmd = "ia_exiftool_cmd raw_path (snd item)"
    let ?s = "s\<lparr>ia_invoked := ia_invoked s @ [?cmd]\<rparr>"
    obtain n where
      "transfer_loop env raw_map items (if ia_exiftool env ?cmd = 0 then Suc c else c) ?s =
         (n, ?s\<lparr>ia_invoked := ia_invoked ?s @ ia_commands raw_map items\<rparr>)"
      using Cons.IH[of "if ia_exiftool env ?cmd = 0 then Suc c else c" ?s] by blast
    then show ?thesis
      using Some by (intro exI[of _ n]) (simp add: ia_commands_def List.map_filter_simps Let_def)
  qed
qed

lemma stage_3_loop_invoked:
  "\<exists>n. stage_3_loop env raw_map items c s =
          (n, s\<lparr>cl_invoked := cl_invoked s @ cl_commands raw_map items\<rparr>)"
proof (induction items arbitrary: c s)
  case Nil
  then show ?case by (simp add: cl_commands_def List.map_filter_simps)
next
  case (Cons item items)
  show ?case
  proof (cases "map_of raw_map (fst item)")
    case None
    then show ?thesis
      using Cons.IH[of c s] by (simp add: cl_commands_def List.map_filter_simps)
  next
    case (Some raw_path)
    let ?cmd = "cl_exiftool_cmd raw_path (snd item)"
    let ?s = "s\<lparr>cl_invoked := cl_invoked s @ [?cmd]\<rparr>"
    obtain n where
      "stage_3_loop env raw_map items (if cl_exiftool env ?cmd = 0 then Suc c else c) ?s =
         (n, ?s\<lparr>cl_invoked := cl_invoked ?s @ cl_commands raw_map items\<rparr>)"
      using Cons.IH[of "if cl_exiftool env ?cmd = 0 then Suc c else c" ?s] by blast
    then show ?thesis
      using Some by (intro exI[of _ n]) (simp add: cl_commands_def List.map_filter_simps Let_def)
  qed
qed

lemma ia_commands_form:
  "cmd \<in> set (ia_commands raw_map items) \<Longrightarrow> \<exists>raw_path san_path. cmd = ia_exiftool_cmd raw_path san_path"
  by (fastforce simp: ia_commands_def List.map_filter_def)

lemma cl_commands_form:
  "cmd \<in> set (cl_commands raw_map items) \<Longrightarrow> \<exists>raw_path final_path. cmd = cl_exiftool_cmd raw_path final_path"
  by (fastforce simp: cl_commands_def List.map_filter_def)

lemma transfer_metadata_invoked:
  "ia_invoked (transfer_metadata env mapping s) =
     ia_invoked s @ (if ia_exiftool_found env
                     then ia_commands (raw_index path_stem (ia_INPUT_DIR env) (ia_raw env)) mapping
                     else [])"
proof (cases "ia_exiftool_found env")
  case False
  then show ?thesis by (simp add: transfer_metadata_def Let_def)
next
  case True
  let ?s1 = "s\<lparr>log := log s @ [(INFO, EvTransferStart)]\<rparr>"
  let ?rm = "raw_index path_stem (ia_INPUT_DIR env) (ia_raw env)"
  obtain n where "transfer_loop env ?rm mapping 0 ?s1 =
      (n, ?s1\<lparr>ia_invoked := ia_invoked ?s1 @ ia_commands ?rm mapping\<rparr>)"
    using transfer_loop_invoked[of env ?rm mapping 0 ?s1] by blast
  then show ?thesis using True by (simp add: transfer_metadata_def Let_def)
qed

lemma stage_3_invoked:
  "cl_invoked (stage_3_metadata_injection env final_map s) =
     cl_invoked s @ (if cl_exiftool_found env
                     then cl_commands (raw_index splitext_root (cl_INPUT_DIR env)
                                         (filter visible (cl_raw env))) final_map
                     else [])"
proof (cases "cl_exiftool_found env")
  case False
  then show ?thesis by (simp add: stage_3_metadata_injection_def Let_def)
next
  case True
  let ?s1 = "s\<lparr>cl_printed := cl_printed s @ [ClStage3]\<rparr>"
  let ?rm = "raw_index splitext_root (cl_INPUT_DIR env) (filter visible (cl_raw env))"
  obtain n where "stage_3_loop env ?rm final_map 0 ?s1 =
      (n, ?s1\<lparr>cl_invoked := cl_invoked ?s1 @ cl_commands ?rm final_map\<rparr>)"
    using stage_3_loop_invoked[of env ?rm final_map 0 ?s1] by blast
  then show ?thesis using True by (simp add: stage_3_metadata_injection_def Let_def)
qed


text \<open>
  Claim C4 fails in the classical engine. For a frame whose original exists and whose
  transfer exits with status 0, \<open>stage_3_metadata_injection\<close> runs
  \<open>exiftool -overwrite_original -TagsFromFile raw -all:all target\<close>: the tags of the
  original are copied, its orientation tag among them, and no argument sets the orientation
  to 1, although \<open>cv2.imread\<close> has already turned the pixels upright. For the same frame
  \<open>transfer_metadata\<close> of the learned engine passes \<open>-n -Orientation=1\<close>.
\<close>

theorem classical_transfer_has_no_orientation_argument:
  "cl_exiftool one_corrupt_cl
     [''exiftool'', ''-overwrite_original'', ''-TagsFromFile'', ''/proj/data/raw/b.jpg'',
      ''-all:all'', ''/proj/data/sanitized/1000.jpg''] = 0
   \<and> stage_3_metadata_injection one_corrupt_cl [(''b'', ''/proj/data/sanitized/1000.jpg'')] fresh_cl =
       \<lparr>temp_dir = None, final_dir = None, cl_printed = [ClStage3, ClRestored 1],
        cl_invoked =
          [[''exiftool'', ''-overwrite_original'', ''-TagsFromFile'', ''/proj/data/raw/b.jpg'',
            ''-all:all'', ''/proj/data/sanitized/1000.jpg'']]\<rparr>
   \<and> ''-Orientation=1'' \<notin>
       set [''exiftool'', ''-overwrite_original'', ''-TagsFromFile'', ''/proj/data/raw/b.jpg'',
            ''-all:all'', ''/proj/data/sanitized/1000.jpg'']
   \<and> transfer_metadata one_corrupt_ia [(''b'', ''/proj/data/sanitized/1001.jpg'')] fresh_ia =
       \<lparr>out_dir = None, log = [(INFO, EvTransferStart), (INFO, EvTransferDone 1 1)],
        ia_invoked =
          [[''exiftool'', ''-overwrite_original'', ''-TagsFromFile'', ''/proj/data/raw/b.jpg'',
            ''-all:all'', ''-n'', ''-Orientation=1'', ''/proj/data/sanitized/1001.jpg'']]\<rparr>"
  by code_simp

section \<open>The loops of the classical engine\<close>

lemma update_keys: "fst ` set (AList.update k v al) = insert k (fst ` set al)"
  by (induction al) auto

lemma stage_2_loop_result:
  assumes "final_dir s = Some fd"
    and "\<forall>k\<ge>count. sequence_name k \<notin> fst ` set fd"
    and "distinct names"
    and "set names \<subseteq> fst ` set temp_map"
    and "\<forall>n\<in>set names. n \<notin> fst ` set final_map"
  shows "\<exists>fd'. stage_2_loop env temp_map names count final_map s =
           (Some (final_map @
                  zip (filter (temp_readable temp_map (temp_dir s)) names)
                      (map (cl_out_path env)
                         [count..<count + length (filter (temp_readable temp_map (temp_dir s)) names)])),
            s\<lparr>final_dir := Some fd'\<rparr>)
         \<and> map fst fd' = map fst fd @ map sequence_name
              [count..<count + length (filter (temp_readable temp_map (temp_dir s)) names)]"
  using assms
proof (induction names arbitrary: count final_map s fd)
  case Nil
  then show ?case by (intro exI[of _ fd]) simp
next
  case (Cons n names)
  obtain png_path where p: "map_of temp_map n = Some png_path"
    using Cons.prems(4) by (auto simp: image_iff) (metis weak_map_of_SomeI map_of_eq_None_iff not_Some_eq fst_conv image_eqI)
  have d: "distinct names" and sub: "set names \<subseteq> fst ` set temp_map"
    and nf: "\<forall>m\<in>set names. m \<notin> fst ` set final_map"
    using Cons.prems by simp_all
  show ?case
  proof (cases "Option.bind (temp_dir s) (\<lambda>files. map_of files png_path)")
    case None
    then have nr: "\<not> temp_readable temp_map (temp_dir s) n"
      by (simp add: temp_readable_def p)
    have step: "stage_2_loop env temp_map (n # names) count final_map s =
                stage_2_loop env temp_map names count final_map s"
      using p None by simp
    show ?thesis
      unfolding step using Cons.IH[OF Cons.prems(1,2) d sub nf] nr by simp
  next
    case (Some img)
    then have r: "temp_readable temp_map (temp_dir s) n"
      by (simp add: temp_readable_def p)
    let ?img = "case img of ColorAlpha px \<Rightarrow> Color (flatten_alpha px) | _ \<Rightarrow> img"
    let ?fd = "fd @ [(sequence_name count, ?img)]"
    let ?s = "s\<lparr>final_dir := Some ?fd\<rparr>"
    let ?fm = "final_map @ [(n, cl_out_path env count)]"
    have fresh: "sequence_name count \<notin> fst ` set fd" using Cons.prems(2) by simp
    have nfresh: "n \<notin> fst ` set final_map" using Cons.prems(5) by simp
    have step: "stage_2_loop env temp_map (n # names) count final_map s =
                stage_2_loop env temp_map names (Suc count) ?fm ?s"
      using p Some fresh nfresh Cons.prems(1)
      by (simp add: Let_def imwrite_def update_fresh cl_out_path_def)
    have 1: "final_dir ?s = Some ?fd" by simp
    have 2: "\<forall>k\<ge>Suc count. sequence_name k \<notin> fst ` set ?fd"
      using Cons.prems(2) by auto
    have 3: "\<forall>m\<in>set names. m \<notin> fst ` set ?fm"
      using nf Cons.prems(3) by auto
    have t: "temp_dir ?s = temp_dir s" by simp
    let ?sv = "filter (temp_readable temp_map (temp_dir s)) names"
    obtain fd' where
      a: "stage_2_loop env temp_map names (Suc count) ?fm ?s =
           (Some (?fm @ zip ?sv (map (cl_out_path env) [Suc count..<Suc count + length ?sv])),
            ?s\<lparr>final_dir := Some fd'\<rparr>)"
      and b: "map fst fd' = map fst ?fd @ map sequence_name [Suc count..<Suc count + length ?sv]"
      using Cons.IH[OF 1 2 d sub 3] unfolding t by blast
    have u: "[count..<Suc (count + length ?sv)] = count # [Suc count..<Suc (count + length ?sv)]"
      by (subst upt_rec) simp
    show ?thesis
      unfolding step
      by (intro exI[of _ fd']) (simp add: a b r u del: upt_Suc)
  qed
qed

lemma stage_2_sanitization_result:
  assumes "distinct (map fst temp_map)"
  shows "\<exists>fd'. stage_2_sanitization env temp_map s =
           (Some (zip (filter (temp_readable temp_map (temp_dir s)) (sort (map fst temp_map)))
                      (map (cl_out_path env)
                         [0..<length (filter (temp_readable temp_map (temp_dir s)) (sort (map fst temp_map)))])),
            s\<lparr>cl_printed := cl_printed s @ [ClStage2], final_dir := Some fd'\<rparr>)
         \<and> map fst fd' = map sequence_name
              [0..<length (filter (temp_readable temp_map (temp_dir s)) (sort (map fst temp_map)))]"
proof -
  let ?s1 = "s\<lparr>cl_printed := cl_printed s @ [ClStage2], final_dir := Some []\<rparr>"
  let ?names = "sort (map fst temp_map)"
  have 1: "final_dir ?s1 = Some []" by simp
  have 2: "\<forall>k\<ge>0. sequence_name k \<notin> fst ` set ([] :: (string \<times> image) list)" by simp
  have 3: "distinct ?names" using assms by simp
  have 4: "set ?names \<subseteq> fst ` set temp_map" by simp
  have 5: "\<forall>n\<in>set ?names. n \<notin> fst ` set ([] :: (string \<times> string) list)" by simp
  have t: "temp_dir ?s1 = temp_dir s" by simp
  obtain fd' where
    "stage_2_loop env temp_map ?names 0 [] ?s1 =
       (Some ([] @ zip (filter (temp_readable temp_map (temp_dir s)) ?names)
                    (map (cl_out_path env)
                       [0..<0 + length (filter (temp_readable temp_map (temp_dir s)) ?names)])),
        ?s1\<lparr>final_dir := Some fd'\<rparr>)"
    "map fst fd' = map fst ([] :: (string \<times> image) list) @ map sequence_name
       [0..<0 + length (filter (temp_readable temp_map (temp_dir s)) ?names)]"
    using stage_2_loop_result[OF 1 2 3 4 5, of env] unfolding t by blast
  then show ?thesis
    by (intro exI[of _ fd']) (simp add: stage_2_sanitization_def Let_def)
qed

lemma stage_1_loop_result:
  assumes "temp_dir s = Some d"
    and "distinct (map splitext_root files)"
    and "\<forall>f\<in>set files. splitext_root f \<notin> fst ` set temp_map"
  shows "\<exists>d'. stage_1_loop env files temp_map s =
           (temp_map @ map (\<lambda>f. (splitext_root f, temp_path env (splitext_root f)))
                           (filter (cl_readable env) files),
            s\<lparr>temp_dir := Some d'\<rparr>)
         \<and> fst ` set d' = fst ` set d \<union>
             (\<lambda>f. temp_path env (splitext_root f)) ` set (filter (cl_readable env) files)"
  using assms
proof (induction files arbitrary: temp_map s d)
  case Nil
  then show ?case by (intro exI[of _ d]) simp
next
  case (Cons f fs)
  have d: "distinct (map splitext_root fs)" using Cons.prems(2) by simp
  have nf: "\<forall>g\<in>set fs. splitext_root g \<notin> fst ` set temp_map" using Cons.prems(3) by simp
  show ?case
  proof (cases "imread env f")
    case None
    then show ?thesis
      using Cons.IH[OF Cons.prems(1) d nf] by (simp add: cl_readable_def)
  next
    case (Some img)
    let ?name = "splitext_root f"
    let ?img = "ColorAlpha (map2 (\<lambda>px m. case px of (b, g, r) \<Rightarrow> (b, g, r, m))
                              (apply_clahe env img) (mask_of env img))"
    let ?d = "AList.update (temp_path env ?name) ?img d"
    let ?s = "s\<lparr>temp_dir := Some ?d\<rparr>"
    let ?tm = "temp_map @ [(?name, temp_path env ?name)]"
    have fresh: "?name \<notin> fst ` set temp_map" using Cons.prems(3) by simp
    have step: "stage_1_loop env (f # fs) temp_map s = stage_1_loop env fs ?tm ?s"
      using Some fresh Cons.prems(1)
      by (simp add: Let_def imwrite_def update_fresh temp_path_def)
    have 1: "temp_dir ?s = Some ?d" by simp
    have 3: "\<forall>g\<in>set fs. splitext_root g \<notin> fst ` set ?tm"
      using nf Cons.prems(2) by (auto simp: image_iff)
    obtain d' where
      a: "stage_1_loop env fs ?tm ?s =
            (?tm @ map (\<lambda>f. (splitext_root f, temp_path env (splitext_root f)))
                       (filter (cl_readable env) fs),
             ?s\<lparr>temp_dir := Some d'\<rparr>)"
      and b: "fst ` set d' = fst ` set ?d \<union>
               (\<lambda>f. temp_path env (splitext_root f)) ` set (filter (cl_readable env) fs)"
      using Cons.IH[OF 1 d 3] by blast
    have r: "cl_readable env f" using Some by (simp add: cl_readable_def)
    show ?thesis
      unfolding step
      by (intro exI[of _ d']) (auto simp: a b r update_keys)
  qed
qed

lemma stage_3_state:
  "\<exists>n new. stage_3_metadata_injection env final_map s =
      s\<lparr>cl_printed := cl_printed s @ [ClStage3,
                          if cl_exiftool_found env then ClRestored n else ClErrExiftoolMissing],
        cl_invoked := cl_invoked s @ new\<rparr>"
proof (cases "cl_exiftool_found env")
  case False
  then show ?thesis
    by (intro exI[of _ 0] exI[of _ "[]"]) (simp add: stage_3_metadata_injection_def Let_def)
next
  case True
  let ?s1 = "s\<lparr>cl_printed := cl_printed s @ [ClStage3]\<rparr>"
  let ?rm = "raw_index splitext_root (cl_INPUT_DIR env) (filter visible (cl_raw env))"
  obtain n where "stage_3_loop env ?rm final_map 0 ?s1 =
      (n, ?s1\<lparr>cl_invoked := cl_invoked ?s1 @ cl_commands ?rm final_map\<rparr>)"
    using stage_3_loop_invoked[of env ?rm final_map 0 ?s1] by blast
  then show ?thesis
    using True
    by (intro exI[of _ n] exI[of _ "cl_commands ?rm final_map"])
       (simp add: stage_3_metadata_injection_def Let_def)
qed

text \<open>
  Claim C2 fails in the classical engine: a file that \<open>cv2.imread\<close> cannot decode is
  passed over by a bare \<open>continue\<close>. The run goes on and writes the one valid frame, and
  the unreadable file is absent from the mapping, so that no transfer is run for it; but
  nothing the run prints names \<open>a.jpg\<close>. On the same two files the learned engine logs
  a warning that names it.
\<close>

theorem classical_engine_skips_silently:
  "cl_main one_corrupt_cl fresh_cl =
     (Returned,
      \<lparr>temp_dir = Some [(''/proj/data/processed_temp/b.png'', ColorAlpha [(10, 200, 50, 255)])],
       final_dir = Some [(''1000.jpg'', Color [(10, 200, 50)])],
       cl_printed = [ClBanner, ClStage1, ClStage2, ClStage3, ClRestored 1, ClReady],
       cl_invoked =
         [[''exiftool'', ''-overwrite_original'', ''-TagsFromFile'', ''/proj/data/raw/b.jpg'',
           ''-all:all'', ''/proj/data/sanitized/1000.jpg'']]\<rparr>)
   \<and> log (snd (ia_main one_corrupt_ia fresh_ia)) =
       [(INFO, EvStart), (INFO, EvLoadingModel 2), (WARNING, EvDecodeFailed ''a.jpg''),
        (INFO, EvTransferStart), (INFO, EvTransferDone 1 1),
        (INFO, EvFinished ''/proj/data/sanitized'')]"
  by code_simp

section \<open>The orchestrator's precondition on the number of frames\<close>

lemma validate_environment_few:
  assumes "input_images env = Dir entries" and "num_files entries < 3"
  shows "validate_environment env =
           ([if falsy (ALICEVISION_BIN env) \<or> falsy (SENSOR_DB env) then ErrEnvNotConfigured
             else ErrInsufficientImages (INPUT_IMAGES_DIR env) (num_files entries)], Some False)"
  using assms by (simp add: validate_environment_def)

text \<open>
  Claim C7. When the sanitized directory holds fewer than three entries whose name ends in
  \<open>.jpg\<close>, \<open>main\<close> ends by \<open>sys.exit(1)\<close> after printing one error line (the
  frame count, or the missing environment variables, which are checked first); it has
  invoked no external binary, and the reconstruction directory is as it was before the run.
\<close>

theorem fail_fast_fewer_than_three:
  assumes "input_images env = Dir entries" and "num_files entries < 3"
  shows "fst (pipeline_main env s0) = SysExit 1
       \<and> recon (snd (pipeline_main env s0)) = recon s0
       \<and> invoked (snd (pipeline_main env s0)) = invoked s0
       \<and> printed (snd (pipeline_main env s0)) =
           printed s0 @
           [Banner,
            if falsy (ALICEVISION_BIN env) \<or> falsy (SENSOR_DB env) then ErrEnvNotConfigured
            else ErrInsufficientImages (INPUT_IMAGES_DIR env) (num_files entries)]"
  by (simp add: pipeline_main_def validate_environment_few[OF assms])

theorem fail_fast_fewer_than_three_witness:
  "input_images few_frames_env = Dir [''1000.jpg'', ''1001.jpg'', ''notes.txt'']
   \<and> num_files [''1000.jpg'', ''1001.jpg'', ''notes.txt''] < 3
   \<and> fst (pipeline_main few_frames_env earlier_recon) = SysExit 1
   \<and> recon (snd (pipeline_main few_frames_env earlier_recon)) = Dir [''texturedMesh.obj'']
   \<and> invoked (snd (pipeline_main few_frames_env earlier_recon)) = []
   \<and> printed (snd (pipeline_main few_frames_env earlier_recon)) =
       [Banner, ErrInsufficientImages ''/proj/data/sanitized'' 2]"
proof -
  have h1: "input_images few_frames_env = Dir [''1000.jpg'', ''1001.jpg'', ''notes.txt'']"
    by (simp add: few_frames_env_def)
  have h2: "num_files [''1000.jpg'', ''1001.jpg'', ''notes.txt''] < 3"
    by (simp add: num_files_def endswith_def)
  have h3: "num_files [''1000.jpg'', ''1001.jpg'', ''notes.txt''] = 2"
    by (simp add: num_files_def endswith_def)
  have h4: "INPUT_IMAGES_DIR few_frames_env = ''/proj/data/sanitized''"
    by (simp add: INPUT_IMAGES_DIR_def path_join_def few_frames_env_def)
  have h5: "\<not> (falsy (ALICEVISION_BIN few_frames_env) \<or> falsy (SENSOR_DB few_frames_env))"
    by (simp add: falsy_def few_frames_env_def)
  show ?thesis
    using fail_fast_fewer_than_three[OF h1 h2, of earlier_recon] h1 h2
    by (simp add: h3 h4 h5 earlier_recon_def)
qed

end
